theory Spec2Isabelle
  imports Complex_Main
begin

section \<open>Augmentor: the geometric operations of \<open>Operations.py\<close>\<close>

text \<open>
  The operations of \<open>src/Augmentor/Operations.py\<close> that derive geometry: \<open>Skew\<close>,
  \<open>Rotate\<close>, \<open>RotateRange\<close>, \<open>Shear\<close> and \<open>Distort\<close>.

  Conventions of the embedding.
  \<^item> Python integers are \<^typ>\<open>int\<close>; Python floats are \<^typ>\<open>real\<close> (the module
    imports true division from \<open>__future__\<close>, so \<open>/\<close> on integers is real division).
    Rounding errors of IEEE arithmetic are not modelled, but for the zeros of the sine
    (\<open>math_sin\<close> below), which decide where \<open>Rotate\<close> divides by zero.
  \<^item> The matrix inversion of numpy is a parameter of \<open>Skew\<close>, not a definition.
  \<^item> An exception is a value of \<open>error\<close>, returned as \<open>Inl\<close>.
  \<^item> The global random generator is an explicit stream of raw draws that each
    call of \<open>random.randint\<close> consumes from the front.
  \<^item> The image library (PIL) is not modelled: an operation returns the geometry it hands
    to PIL (corner planes, crop windows, affine matrices, meshes).
\<close>

subsection \<open>Exceptions and the random source\<close>

datatype error =
    ValueError
  | UnboundLocalError
  | ZeroDivisionError
  | IndexError
  | LinAlgError

type_synonym rng = "nat \<Rightarrow> int"

definition rng_tail :: "rng \<Rightarrow> rng" where
  "rng_tail g = (\<lambda>n. g (Suc n))"

text \<open>\<open>random.randint(a, b)\<close>: an integer of \<open>[a, b]\<close>; \<open>ValueError\<close> on an empty range.\<close>

definition randint :: "int \<Rightarrow> int \<Rightarrow> rng \<Rightarrow> error + (int \<times> rng)" where
  "randint a b g =
     (if b < a then Inl ValueError
      else Inr (a + g 0 mod (b - a + 1), rng_tail g))"

text \<open>
  \<open>random.randint(a, b)\<close> with a float upper bound, as the \<open>"ALL"\<close> branch of \<open>Skew\<close>
  calls it once the magnitude is set: \<open>randrange\<close> refuses a non-integral bound.
\<close>

definition randint_real :: "int \<Rightarrow> real \<Rightarrow> rng \<Rightarrow> error + (int \<times> rng)" where
  "randint_real a b g =
     (if b \<noteq> of_int \<lfloor>b\<rfloor> then Inl ValueError else randint a \<lfloor>b\<rfloor> g)"

subsection \<open>Skew\<close>

record Skew =
  skew_type :: string
  magnitude :: "int option"

type_synonym point = "real \<times> real"
type_synonym plane = "point list"

text \<open>Lines 313--319: \<open>not self.magnitude\<close> holds for \<open>None\<close> and for \<open>0\<close>.\<close>

definition skew_amount :: "Skew \<Rightarrow> int \<Rightarrow> int \<Rightarrow> rng \<Rightarrow> error + (real \<times> rng)" where
  "skew_amount self w h g =
     (let max_skew_amount = max w h in
      if magnitude self = None \<or> magnitude self = Some 0 then
        (case randint 1 max_skew_amount g of
           Inl e \<Rightarrow> Inl e
         | Inr (r, g') \<Rightarrow> Inr (of_int r, g'))
      else Inr (of_int max_skew_amount / of_int (the (magnitude self)), g))"

text \<open>The original plane, lines 306--311 (\<open>x1 = 0, x2 = h, y1 = 0, y2 = w\<close>).\<close>

definition original_plane :: "int \<Rightarrow> int \<Rightarrow> plane" where
  "original_plane w h = [(0, 0), (of_int w, 0), (of_int w, of_int h), (0, of_int h)]"

text \<open>The direction tables, lines 333--356 and 362--385.\<close>

definition tilt_plane :: "int \<Rightarrow> real \<Rightarrow> real \<Rightarrow> real \<Rightarrow> plane option" where
  "tilt_plane skew_direction y2 x2 s =
     (if skew_direction = 0 then Some [(0, 0 - s), (y2, 0), (y2, x2), (0, x2 + s)]
      else if skew_direction = 1 then Some [(0, 0), (y2, 0 - s), (y2, x2 + s), (0, x2)]
      else if skew_direction = 2 then Some [(0 - s, 0), (y2 + s, 0), (y2, x2), (0, x2)]
      else if skew_direction = 3 then Some [(0, 0), (y2, 0), (y2 + s, x2), (0 - s, x2)]
      else None)"

definition corner_plane :: "int \<Rightarrow> real \<Rightarrow> real \<Rightarrow> real \<Rightarrow> plane option" where
  "corner_plane skew_direction y2 x2 s =
     (if skew_direction = 0 then Some [(0 - s, 0), (y2, 0), (y2, x2), (0, x2)]
      else if skew_direction = 1 then Some [(0, 0 - s), (y2, 0), (y2, x2), (0, x2)]
      else if skew_direction = 2 then Some [(0, 0), (y2 + s, 0), (y2, x2), (0, x2)]
      else if skew_direction = 3 then Some [(0, 0), (y2, 0 - s), (y2, x2), (0, x2)]
      else if skew_direction = 4 then Some [(0, 0), (y2, 0), (y2 + s, x2), (0, x2)]
      else if skew_direction = 5 then Some [(0, 0), (y2, 0), (y2, x2 + s), (0, x2)]
      else if skew_direction = 6 then Some [(0, 0), (y2, 0), (y2, x2), (0 - s, x2)]
      else if skew_direction = 7 then Some [(0, 0), (y2, 0), (y2, x2), (0, x2 + s)]
      else None)"

text \<open>The eight draws of the \<open>"ALL"\<close> branch, lines 393--396, in the order of the calls.\<close>

fun randints :: "nat \<Rightarrow> real \<Rightarrow> rng \<Rightarrow> error + (int list \<times> rng)" where
  "randints 0 s g = Inr ([], g)"
| "randints (Suc n) s g =
     (case randint_real 1 s g of
        Inl e \<Rightarrow> Inl e
      | Inr (r, g') \<Rightarrow>
          (case randints n s g' of
             Inl e \<Rightarrow> Inl e
           | Inr (rs, g'') \<Rightarrow> Inr (r # rs, g'')))"

definition all_plane :: "real \<Rightarrow> real \<Rightarrow> int list \<Rightarrow> plane option" where
  "all_plane y2 x2 rs =
     (case rs of
        [r1, r2, r3, r4, r5, r6, r7, r8] \<Rightarrow>
          Some [(0 - of_int r1, 0 - of_int r2), (y2 + of_int r3, 0 - of_int r4),
                (y2 + of_int r5, x2 + of_int r6), (0 - of_int r7, x2 + of_int r8)]
      | _ \<Rightarrow> None)"

text \<open>
  Lines 304--398: the destination plane. \<open>None\<close> is the local variable \<open>new_plane\<close>
  left unassigned, which happens when no branch matches \<open>skew_type\<close>.
\<close>

definition new_plane :: "Skew \<Rightarrow> int \<Rightarrow> int \<Rightarrow> rng \<Rightarrow> error + (plane option \<times> rng)" where
  "new_plane self w h g =
     (case skew_amount self w h g of
        Inl e \<Rightarrow> Inl e
      | Inr (s, g1) \<Rightarrow>
          if skew_type self = ''TILT'' \<or> skew_type self = ''TILT_LEFT_RIGHT''
             \<or> skew_type self = ''TILT_TOP_BOTTOM'' then
            (case (if skew_type self = ''TILT'' then randint 0 3 g1
                   else if skew_type self = ''TILT_LEFT_RIGHT'' then randint 0 1 g1
                   else randint 2 3 g1) of
               Inl e \<Rightarrow> Inl e
             | Inr (d, g2) \<Rightarrow> Inr (tilt_plane d (of_int w) (of_int h) s, g2))
          else if skew_type self = ''CORNER'' then
            (case randint 0 7 g1 of
               Inl e \<Rightarrow> Inl e
             | Inr (d, g2) \<Rightarrow> Inr (corner_plane d (of_int w) (of_int h) s, g2))
          else if skew_type self = ''ALL'' then
            (case randints 8 s g1 of
               Inl e \<Rightarrow> Inl e
             | Inr (rs, g2) \<Rightarrow> Inr (all_plane (of_int w) (of_int h) rs, g2))
          else Inr (None, g1))"


subsection \<open>The projective solve of \<open>Skew\<close>, lines 402--412\<close>

type_synonym matrix = "real list list"

definition dot :: "real list \<Rightarrow> real list \<Rightarrow> real" where
  "dot u v = sum_list (map2 (*) u v)"

definition mat_mul :: "matrix \<Rightarrow> matrix \<Rightarrow> matrix" where
  "mat_mul A B = map (\<lambda>row. map (dot row) (transpose B)) A"

definition mat_vec :: "matrix \<Rightarrow> real list \<Rightarrow> real list" where
  "mat_vec A v = map (\<lambda>row. dot row v) A"

definition identity :: "nat \<Rightarrow> matrix" where
  "identity n = map (\<lambda>i. map (\<lambda>j. if i = j then 1 else 0) [0..<n]) [0..<n]"

text \<open>
  \<open>numpy.linalg.inv\<close> is a library routine in floating point. In the model of the code
  it is a parameter \<open>linalg_inv\<close>: a function from a matrix to its result or to the
  exception it raises.

  To run the solve on concrete corners, \<open>exact_inv\<close> is one such routine: Gauss--Jordan
  elimination on \<open>[M | I]\<close> in exact arithmetic, which refuses a matrix when a column has
  no pivot left. It stands for no more than that; what numpy does with a singular or
  badly conditioned matrix in floating point is not derived from it.
\<close>

fun find_pivot :: "nat \<Rightarrow> matrix \<Rightarrow> (real list \<times> matrix) option" where
  "find_pivot c [] = None"
| "find_pivot c (r # rs) =
     (if r ! c \<noteq> 0 then Some (r, rs)
      else (case find_pivot c rs of
              None \<Rightarrow> None
            | Some (p, rest) \<Rightarrow> Some (p, r # rest)))"

definition eliminate :: "nat \<Rightarrow> real list \<Rightarrow> real list \<Rightarrow> real list" where
  "eliminate c p r = map2 (\<lambda>x y. x - (r ! c) * y) r p"

fun gauss_jordan :: "nat list \<Rightarrow> matrix \<Rightarrow> matrix \<Rightarrow> matrix option" where
  "gauss_jordan [] done todo = Some done"
| "gauss_jordan (c # cs) done todo =
     (case find_pivot c todo of
        None \<Rightarrow> None
      | Some (p, rest) \<Rightarrow>
          (let p' = map (\<lambda>x. x / (p ! c)) p
           in gauss_jordan cs (map (eliminate c p') done @ [p']) (map (eliminate c p') rest)))"

definition exact_inv :: "matrix \<Rightarrow> error + matrix" where
  "exact_inv M =
     (let n = length M in
      case gauss_jordan [0..<n] [] (map2 (@) M (identity n)) of
        None \<Rightarrow> Inl LinAlgError
      | Some rows \<Rightarrow> Inr (map (drop n) rows))"

text \<open>The two rows a correspondence \<open>p1 \<mapsto> p2\<close> contributes, lines 405--406.\<close>

definition matrix_rows :: "point \<Rightarrow> point \<Rightarrow> matrix" where
  "matrix_rows p1 p2 =
     [[fst p1, snd p1, 1, 0, 0, 0, - fst p2 * fst p1, - fst p2 * snd p1],
      [0, 0, 0, fst p1, snd p1, 1, - snd p2 * fst p1, - snd p2 * snd p1]]"

definition skew_matrix :: "plane \<Rightarrow> plane \<Rightarrow> matrix" where
  "skew_matrix new original = concat (map2 matrix_rows new original)"

definition normal_matrix :: "plane \<Rightarrow> plane \<Rightarrow> matrix" where
  "normal_matrix new original =
     mat_mul (transpose (skew_matrix new original)) (skew_matrix new original)"

text \<open>
  Lines 402--412: \<open>np.dot(np.linalg.inv(A.T * A) * A.T, B)\<close>, with no test between the
  inversion and the products.
\<close>

definition perspective_skew_coefficients ::
  "(matrix \<Rightarrow> error + matrix) \<Rightarrow> plane \<Rightarrow> plane \<Rightarrow> error + real list" where
  "perspective_skew_coefficients linalg_inv new original =
     (let A = skew_matrix new original;
          B = concat (map (\<lambda>p. [fst p, snd p]) original)
      in case linalg_inv (normal_matrix new original) of
           Inl e \<Rightarrow> Inl e
         | Inr N \<Rightarrow> Inr (mat_vec (mat_mul N (transpose A)) B))"

text \<open>
  \<open>Skew.perform_operation\<close>: the coefficients handed to PIL's perspective transform.
  Reading \<open>new_plane\<close> at line 404 when no branch assigned it raises \<open>UnboundLocalError\<close>.
\<close>

definition Skew_perform_operation ::
  "(matrix \<Rightarrow> error + matrix) \<Rightarrow> Skew \<Rightarrow> int \<Rightarrow> int \<Rightarrow> rng \<Rightarrow> error + (real list \<times> rng)" where
  "Skew_perform_operation linalg_inv self w h g =
     (case new_plane self w h g of
        Inl e \<Rightarrow> Inl e
      | Inr (None, g') \<Rightarrow> Inl UnboundLocalError
      | Inr (Some p, g') \<Rightarrow>
          (case perspective_skew_coefficients linalg_inv p (original_plane w h) of
             Inl e \<Rightarrow> Inl e
           | Inr k \<Rightarrow> Inr (k, g')))"

text \<open>
  Twice the area of the triangle \<open>p q r\<close>, zero exactly when the three points are
  collinear, and the square of the distance from \<open>p\<close> to \<open>q\<close>. The triangle's height
  over the side \<open>p q\<close> is the first divided by the root of the second.
\<close>

definition twice_area :: "point \<Rightarrow> point \<Rightarrow> point \<Rightarrow> real" where
  "twice_area p q r =
     \<bar>(fst q - fst p) * (snd r - snd p) - (fst r - fst p) * (snd q - snd p)\<bar>"

definition distance2 :: "point \<Rightarrow> point \<Rightarrow> real" where
  "distance2 p q = (fst q - fst p)\<^sup>2 + (snd q - snd p)\<^sup>2"

subsection \<open>Rotate and RotateRange\<close>

definition radians :: "real \<Rightarrow> real" where
  "radians d = d * pi / 180"

text \<open>The built-in \<open>round\<close> of Python 3: a tie goes to the even neighbour.\<close>

definition py_round :: "real \<Rightarrow> int" where
  "py_round x =
     (let f = \<lfloor>x\<rfloor>; d = x - of_int f
      in if d < 1 / 2 then f
         else if 1 / 2 < d then f + 1
         else if even f then f else f + 1)"

text \<open>\<open>int(x)\<close> on a float truncates towards zero.\<close>

definition py_int :: "real \<Rightarrow> int" where
  "py_int x = (if 0 \<le> x then \<lfloor>x\<rfloor> else \<lceil>x\<rceil>)"

type_synonym box = "int \<times> int \<times> int \<times> int"

text \<open>
  \<open>math.sin\<close>. No float other than 0 is a multiple of \<open>\<pi>\<close>, so the floating-point sine is
  zero at 0 only: \<open>math.sin(math.radians(180))\<close> is about \<open>1.2e-16\<close>, not 0. The model
  is the real sine, except where the real sine vanishes away from 0; there the result is
  the rounding residue of the float computation, a parameter of the model. The float
  sine never returns 0 there, which the theorems that depend on it assume of \<open>residue\<close>.
\<close>

definition math_sin :: "(real \<Rightarrow> real) \<Rightarrow> real \<Rightarrow> real" where
  "math_sin residue x = (if sin x = 0 \<and> x \<noteq> 0 then residue x else sin x)"

text \<open>
  Lines 486--501 of \<open>Rotate.perform_operation\<close>, and the same computation at lines
  564--584 of \<open>RotateRange.perform_operation\<close>: the crop window for a canvas of size
  \<open>(X, Y)\<close>. Line 496 reads \<open>E = E / 1 - (sin_angle_a ** 2 / sin_angle_b ** 2)\<close>:
  the division binds tighter than the subtraction. The first float division by
  \<open>sin_angle_b\<close> raises \<open>ZeroDivisionError\<close> when it is zero.
\<close>

definition crop_window :: "(real \<Rightarrow> real) \<Rightarrow> real \<Rightarrow> int \<Rightarrow> int \<Rightarrow> error + box" where
  "crop_window residue rotation X Y =
     (let angle_a = \<bar>rotation\<bar>;
          angle_b = 90 - angle_a;
          sin_angle_a = math_sin residue (radians angle_a);
          sin_angle_b = math_sin residue (radians angle_b)
      in if sin_angle_b = 0 then Inl ZeroDivisionError
         else
           (let E0 = (sin_angle_a / sin_angle_b) *
                     (of_int Y - of_int X * (sin_angle_a / sin_angle_b));
                E = E0 / 1 - (sin_angle_a ^ 2 / sin_angle_b ^ 2);
                B = of_int X - E;
                A = (sin_angle_a / sin_angle_b) * B
            in Inr (py_round E, py_round A, py_round (of_int X - E), py_round (of_int Y - A))))"

record Rotate =
  rotation :: real

datatype rotated =
    Rotate90 int
  | CropResize box "int \<times> int"

text \<open>
  \<open>Rotate.perform_operation\<close>. \<open>image_size\<close> is the size of the image passed, and
  \<open>expanded a\<close> the size of the canvas that PIL's \<open>rotate(a, expand=True)\<close> returns
  for it. The result is either the right-angle rotation of the \<open>rotation == -1\<close> branch,
  or the crop window handed to PIL's \<open>crop\<close> with the size of the final resize.
\<close>

definition Rotate_perform_operation ::
  "(real \<Rightarrow> real) \<Rightarrow> Rotate \<Rightarrow> int \<times> int \<Rightarrow> (real \<Rightarrow> int \<times> int) \<Rightarrow> rng
     \<Rightarrow> error + (rotated \<times> rng)" where
  "Rotate_perform_operation residue self image_size expanded g =
     (if rotation self = - 1 then
        (case randint 1 3 g of
           Inl e \<Rightarrow> Inl e
         | Inr (random_factor, g') \<Rightarrow> Inr (Rotate90 (90 * random_factor), g'))
      else
        (case crop_window residue (rotation self) (fst (expanded (rotation self)))
                (snd (expanded (rotation self))) of
           Inl e \<Rightarrow> Inl e
         | Inr window \<Rightarrow> Inr (CropResize window image_size, g)))"

record RotateRange =
  max_left_rotation :: int
  max_right_rotation :: int

definition RotateRange_init :: "int \<Rightarrow> int \<Rightarrow> RotateRange" where
  "RotateRange_init left right =
     \<lparr>max_left_rotation = - \<bar>left\<bar>, max_right_rotation = \<bar>right\<bar>\<rparr>"

definition RotateRange_perform_operation ::
  "(real \<Rightarrow> real) \<Rightarrow> RotateRange \<Rightarrow> int \<times> int \<Rightarrow> (real \<Rightarrow> int \<times> int) \<Rightarrow> rng
     \<Rightarrow> error + (rotated \<times> rng)" where
  "RotateRange_perform_operation residue self image_size expanded g =
     (case randint (max_left_rotation self) (- 5) g of
        Inl e \<Rightarrow> Inl e
      | Inr (random_left, g1) \<Rightarrow>
     (case randint 5 (max_right_rotation self) g1 of
        Inl e \<Rightarrow> Inl e
      | Inr (random_right, g2) \<Rightarrow>
     (case randint 0 1 g2 of
        Inl e \<Rightarrow> Inl e
      | Inr (left_or_right, g3) \<Rightarrow>
          (let rotation = (if left_or_right = 0 then random_left
                           else if left_or_right = 1 then random_right else 0)
           in case crop_window residue (of_int rotation) (fst (expanded (of_int rotation)))
                     (snd (expanded (of_int rotation))) of
                Inl e \<Rightarrow> Inl e
              | Inr window \<Rightarrow> Inr (CropResize window image_size, g3)))))"

text \<open>
  The crop window as the specification words it (section 4.4): the first value of \<open>E\<close>
  is divided by the whole factor \<open>1 - sin\<^sup>2 a / sin\<^sup>2 b\<close>.
\<close>

definition spec_crop_window :: "real \<Rightarrow> int \<Rightarrow> int \<Rightarrow> box" where
  "spec_crop_window \<theta> X Y =
     (let a = \<bar>\<theta>\<bar>;
          b = 90 - a;
          t = sin (radians a) / sin (radians b);
          E = t * (of_int Y - of_int X * t) / (1 - (sin (radians a))\<^sup>2 / (sin (radians b))\<^sup>2);
          B = of_int X - E;
          A = t * B
      in (py_round E, py_round A, py_round (of_int X - E), py_round (of_int Y - A)))"

subsection \<open>Shear\<close>

record Shear =
  max_shear_left :: real
  max_shear_right :: real

datatype direction = DirX | DirY

text \<open>What \<open>Shear.perform_operation\<close> hands to PIL: transform, crop and resize.\<close>

record shear_geometry =
  transform_size :: "int \<times> int"
  transform_matrix :: "real \<times> real \<times> real \<times> real \<times> real \<times> real"
  crop_box :: "real \<times> real \<times> real \<times> real"
  resize_size :: "int \<times> int"

text \<open>\<open>random.uniform(a, b)\<close> is \<open>a + (b - a) * random()\<close>; \<open>t\<close> is the raw draw of \<open>[0, 1)\<close>.\<close>

definition uniform :: "real \<Rightarrow> real \<Rightarrow> real \<Rightarrow> real" where
  "uniform a b t = a + (b - a) * t"

text \<open>
  Lines 727--731. The two bounds are locals assigned the constants \<open>-20\<close> and \<open>20\<close>;
  the attributes that \<open>__init__\<close> stored are not read.
\<close>

definition angle_to_shear :: "Shear \<Rightarrow> real \<Rightarrow> int" where
  "angle_to_shear self t =
     (let local_max_shear_left = - 20;
          local_max_shear_right = 20;
          angle = py_int (uniform (local_max_shear_left - 1) (local_max_shear_right + 1) t)
      in if angle \<noteq> - 1 then angle + 1 else angle)"

text \<open>Lines 756--789, the branch \<open>direction == "x"\<close>.\<close>

definition shear_x :: "int \<Rightarrow> int \<Rightarrow> int \<Rightarrow> shear_geometry" where
  "shear_x angle width height =
     (let phi = tan (radians (of_int angle));
          product = phi * of_int height;
          rounded = (if 0 < product then of_int \<lceil>product\<rceil> else of_int \<lfloor>product\<rfloor>);
          shift_in_pixels = (if angle \<le> 0 then \<bar>rounded\<bar> else rounded);
          matrix_offset = (if angle \<le> 0 then 0 else rounded);
          phi' = (if angle \<le> 0 then \<bar>phi\<bar> * - 1 else phi)
      in \<lparr>transform_size = (py_round (of_int width + shift_in_pixels), height),
          transform_matrix = (1, phi', - matrix_offset, 0, 1, 0),
          crop_box = (\<bar>shift_in_pixels\<bar>, 0, of_int width, of_int height),
          resize_size = (width, height)\<rparr>)"

text \<open>Lines 791--810, the branch \<open>direction == "y"\<close>.\<close>

definition shear_y :: "int \<Rightarrow> int \<Rightarrow> int \<Rightarrow> shear_geometry" where
  "shear_y angle width height =
     (let phi = tan (radians (of_int angle));
          product = phi * of_int width;
          shift_in_pixels = (if angle \<le> 0 then \<bar>product\<bar> else product);
          matrix_offset = (if angle \<le> 0 then 0 else product);
          phi' = (if angle \<le> 0 then \<bar>phi\<bar> * - 1 else phi)
      in \<lparr>transform_size = (width, py_round (of_int height + shift_in_pixels)),
          transform_matrix = (1, 0, 0, phi', 1, - matrix_offset),
          crop_box = (0, \<bar>shift_in_pixels\<bar>, of_int width, of_int height),
          resize_size = (width, height)\<rparr>)"

definition Shear_perform_operation ::
  "Shear \<Rightarrow> int \<Rightarrow> int \<Rightarrow> real \<Rightarrow> direction \<Rightarrow> shear_geometry" where
  "Shear_perform_operation self width height t d =
     (case d of
        DirX \<Rightarrow> shear_x (angle_to_shear self t) width height
      | DirY \<Rightarrow> shear_y (angle_to_shear self t) width height)"

text \<open>
  The same geometry with the two axes exchanged: sizes and crop corners swap their
  components, and the affine map \<open>(a, b, c, d, e, f)\<close> becomes \<open>(e, d, f, b, a, c)\<close>.
\<close>

definition transposed :: "shear_geometry \<Rightarrow> shear_geometry" where
  "transposed r =
     (case (transform_size r, transform_matrix r, crop_box r, resize_size r) of
        ((sw, sh), (a, b, c, d, e, f), (left, upper, right, lower), (rw, rh)) \<Rightarrow>
          \<lparr>transform_size = (sh, sw),
           transform_matrix = (e, d, f, b, a, c),
           crop_box = (upper, left, lower, right),
           resize_size = (rh, rw)\<rparr>)"

subsection \<open>Distort\<close>

record Distort =
  grid_width :: int
  grid_height :: int
  distort_magnitude :: int

text \<open>\<open>__init__\<close> stores the absolute value of the magnitude (line 836).\<close>

definition Distort_init :: "int \<Rightarrow> int \<Rightarrow> int \<Rightarrow> Distort" where
  "Distort_init gw gh m = \<lparr>grid_width = gw, grid_height = gh, distort_magnitude = \<bar>m\<bar>\<rparr>"

type_synonym polygon = "int \<times> int \<times> int \<times> int \<times> int \<times> int \<times> int \<times> int"
type_synonym mesh = "(box \<times> polygon) list"

definition py_range :: "int \<Rightarrow> int list" where
  "py_range n = map int [0..<nat n]"

definition py_range2 :: "int \<Rightarrow> int \<Rightarrow> int list" where
  "py_range2 a b = map (\<lambda>k. a + int k) [0..<nat (b - a)]"

text \<open>\<open>int(floor(a / float(b)))\<close>, lines 847--848: the float division raises on \<open>b = 0\<close>.\<close>

definition floor_div :: "int \<Rightarrow> int \<Rightarrow> error + int" where
  "floor_div a b =
     (if b = 0 then Inl ZeroDivisionError else Inr \<lfloor>real_of_int a / real_of_int b\<rfloor>)"

text \<open>One bounding box of the grid, lines 857--876.\<close>

definition cell_box :: "int \<Rightarrow> int \<Rightarrow> int \<Rightarrow> int \<Rightarrow> int \<Rightarrow> int \<Rightarrow> int \<times> int \<Rightarrow> box" where
  "cell_box horizontal_tiles vertical_tiles width_of_square height_of_square
            width_of_last_square height_of_last_square tile =
     (case tile of (vertical_tile, horizontal_tile) \<Rightarrow>
        if vertical_tile = vertical_tiles - 1 \<and> horizontal_tile = horizontal_tiles - 1 then
          (horizontal_tile * width_of_square,
           vertical_tile * height_of_square,
           width_of_last_square + horizontal_tile * width_of_square,
           height_of_last_square + height_of_square * vertical_tile)
        else if vertical_tile = vertical_tiles - 1 then
          (horizontal_tile * width_of_square,
           vertical_tile * height_of_square,
           width_of_square + horizontal_tile * width_of_square,
           height_of_last_square + height_of_square * vertical_tile)
        else if horizontal_tile = horizontal_tiles - 1 then
          (horizontal_tile * width_of_square,
           vertical_tile * height_of_square,
           width_of_last_square + horizontal_tile * width_of_square,
           height_of_square + height_of_square * vertical_tile)
        else
          (horizontal_tile * width_of_square,
           vertical_tile * height_of_square,
           width_of_square + horizontal_tile * width_of_square,
           height_of_square + height_of_square * vertical_tile))"

text \<open>
  Lines 847--876: the list \<open>dimensions\<close>, rows first, given the two square sizes.
\<close>

definition dimensions :: "int \<Rightarrow> int \<Rightarrow> int \<Rightarrow> int \<Rightarrow> int \<Rightarrow> int \<Rightarrow> box list" where
  "dimensions w h horizontal_tiles vertical_tiles width_of_square height_of_square =
     (let width_of_last_square = w - width_of_square * (horizontal_tiles - 1);
          height_of_last_square = h - height_of_square * (vertical_tiles - 1)
      in map (cell_box horizontal_tiles vertical_tiles width_of_square height_of_square
                width_of_last_square height_of_last_square)
           (List.product (py_range vertical_tiles) (py_range horizontal_tiles)))"

text \<open>Line 890: the corners of a box in the order top-left, bottom-left, bottom-right, top-right.\<close>

definition polygon_of :: "box \<Rightarrow> polygon" where
  "polygon_of b = (case b of (x1, y1, x2, y2) \<Rightarrow> (x1, y1, x1, y2, x2, y2, x2, y1))"

definition last_column :: "int \<Rightarrow> int \<Rightarrow> int list" where
  "last_column horizontal_tiles vertical_tiles =
     map (\<lambda>i. (horizontal_tiles - 1) + horizontal_tiles * i) (py_range vertical_tiles)"

definition last_row :: "int \<Rightarrow> int \<Rightarrow> int list" where
  "last_row horizontal_tiles vertical_tiles =
     py_range2 (horizontal_tiles * vertical_tiles - horizontal_tiles)
               (horizontal_tiles * vertical_tiles)"

text \<open>Lines 892--895.\<close>

definition polygon_indices :: "int \<Rightarrow> int \<Rightarrow> (int \<times> int \<times> int \<times> int) list" where
  "polygon_indices horizontal_tiles vertical_tiles =
     map (\<lambda>i. (i, i + 1, i + horizontal_tiles, i + 1 + horizontal_tiles))
       (filter (\<lambda>i. i \<notin> set (last_row horizontal_tiles vertical_tiles)
                  \<and> i \<notin> set (last_column horizontal_tiles vertical_tiles))
          (py_range (vertical_tiles * horizontal_tiles - 1)))"

text \<open>
  Subscripting a Python list: a negative index counts from the end, and an index out
  of range raises \<open>IndexError\<close>.
\<close>

definition py_index :: "'a list \<Rightarrow> int \<Rightarrow> error + nat" where
  "py_index xs i =
     (let n = int (length xs)
      in if 0 \<le> i \<and> i < n then Inr (nat i)
         else if - n \<le> i \<and> i < 0 then Inr (nat (n + i))
         else Inl IndexError)"

definition update_polygon ::
  "polygon list \<Rightarrow> int \<Rightarrow> (polygon \<Rightarrow> polygon) \<Rightarrow> error + polygon list" where
  "update_polygon polygons i f =
     (case py_index polygons i of
        Inl e \<Rightarrow> Inl e
      | Inr k \<Rightarrow> Inr (polygons[k := f (polygons ! k)]))"

text \<open>The four assignments of lines 901--923, one corner each.\<close>

definition move1 :: "int \<Rightarrow> int \<Rightarrow> polygon \<Rightarrow> polygon" where
  "move1 dx dy p =
     (case p of (x1, y1, x2, y2, x3, y3, x4, y4) \<Rightarrow> (x1 + dx, y1 + dy, x2, y2, x3, y3, x4, y4))"

definition move2 :: "int \<Rightarrow> int \<Rightarrow> polygon \<Rightarrow> polygon" where
  "move2 dx dy p =
     (case p of (x1, y1, x2, y2, x3, y3, x4, y4) \<Rightarrow> (x1, y1, x2 + dx, y2 + dy, x3, y3, x4, y4))"

definition move3 :: "int \<Rightarrow> int \<Rightarrow> polygon \<Rightarrow> polygon" where
  "move3 dx dy p =
     (case p of (x1, y1, x2, y2, x3, y3, x4, y4) \<Rightarrow> (x1, y1, x2, y2, x3 + dx, y3 + dy, x4, y4))"

definition move4 :: "int \<Rightarrow> int \<Rightarrow> polygon \<Rightarrow> polygon" where
  "move4 dx dy p =
     (case p of (x1, y1, x2, y2, x3, y3, x4, y4) \<Rightarrow> (x1, y1, x2, y2, x3, y3, x4 + dx, y4 + dy))"

text \<open>One pass of the loop at line 897: two draws, then the four updates in order.\<close>

definition displace_step ::
  "int \<Rightarrow> int \<times> int \<times> int \<times> int \<Rightarrow> rng \<Rightarrow> polygon list \<Rightarrow> error + (polygon list \<times> rng)" where
  "displace_step m q g polygons =
     (case q of (a, b, c, d) \<Rightarrow>
     (case randint (- m) m g of
        Inl e \<Rightarrow> Inl e
      | Inr (dx, g1) \<Rightarrow>
     (case randint (- m) m g1 of
        Inl e \<Rightarrow> Inl e
      | Inr (dy, g2) \<Rightarrow>
     (case update_polygon polygons a (move3 dx dy) of
        Inl e \<Rightarrow> Inl e
      | Inr p1 \<Rightarrow>
     (case update_polygon p1 b (move2 dx dy) of
        Inl e \<Rightarrow> Inl e
      | Inr p2 \<Rightarrow>
     (case update_polygon p2 c (move4 dx dy) of
        Inl e \<Rightarrow> Inl e
      | Inr p3 \<Rightarrow>
     (case update_polygon p3 d (move1 dx dy) of
        Inl e \<Rightarrow> Inl e
      | Inr p4 \<Rightarrow> Inr (p4, g2))))))))"

fun displace ::
  "int \<Rightarrow> (int \<times> int \<times> int \<times> int) list \<Rightarrow> rng \<Rightarrow> polygon list
     \<Rightarrow> error + (polygon list \<times> rng)" where
  "displace m [] g polygons = Inr (polygons, g)"
| "displace m (q # qs) g polygons =
     (case displace_step m q g polygons of
        Inl e \<Rightarrow> Inl e
      | Inr (polygons', g') \<Rightarrow> displace m qs g' polygons')"

text \<open>\<open>Distort.perform_operation\<close>: the mesh handed to PIL's mesh transform.\<close>

definition Distort_perform_operation ::
  "Distort \<Rightarrow> int \<Rightarrow> int \<Rightarrow> rng \<Rightarrow> error + (mesh \<times> rng)" where
  "Distort_perform_operation self w h g =
     (let horizontal_tiles = grid_width self;
          vertical_tiles = grid_height self
      in case floor_div w horizontal_tiles of
           Inl e \<Rightarrow> Inl e
         | Inr width_of_square \<Rightarrow>
        (case floor_div h vertical_tiles of
           Inl e \<Rightarrow> Inl e
         | Inr height_of_square \<Rightarrow>
            (let dims = dimensions w h horizontal_tiles vertical_tiles
                          width_of_square height_of_square;
                 polygons = map polygon_of dims
             in case displace (distort_magnitude self)
                       (polygon_indices horizontal_tiles vertical_tiles) g polygons of
                  Inl e \<Rightarrow> Inl e
                | Inr (polygons', g') \<Rightarrow>
                    Inr (map (\<lambda>i. (dims ! i, polygons' ! i)) [0..<length dims], g'))))"

subsection \<open>Notions for stating the properties of the mesh\<close>

text \<open>The four corners of a polygon, in the order line 890 lays them out.\<close>

definition top_left :: "polygon \<Rightarrow> int \<times> int" where
  "top_left p = (case p of (x1, y1, x2, y2, x3, y3, x4, y4) \<Rightarrow> (x1, y1))"

definition bottom_left :: "polygon \<Rightarrow> int \<times> int" where
  "bottom_left p = (case p of (x1, y1, x2, y2, x3, y3, x4, y4) \<Rightarrow> (x2, y2))"

definition bottom_right :: "polygon \<Rightarrow> int \<times> int" where
  "bottom_right p = (case p of (x1, y1, x2, y2, x3, y3, x4, y4) \<Rightarrow> (x3, y3))"

definition top_right :: "polygon \<Rightarrow> int \<times> int" where
  "top_right p = (case p of (x1, y1, x2, y2, x3, y3, x4, y4) \<Rightarrow> (x4, y4))"

text \<open>A pixel lies in a box: left and upper edge inclusive, right and lower exclusive.\<close>

definition covers :: "box \<Rightarrow> int \<times> int \<Rightarrow> bool" where
  "covers b p =
     (case b of (x1, y1, x2, y2) \<Rightarrow> x1 \<le> fst p \<and> fst p < x2 \<and> y1 \<le> snd p \<and> snd p < y2)"

text \<open>The position in \<open>dimensions\<close> of the cell in row \<open>r\<close> and column \<open>c\<close>.\<close>

definition cell_index :: "int \<Rightarrow> int \<Rightarrow> int \<Rightarrow> nat" where
  "cell_index horizontal_tiles r c = nat (r * horizontal_tiles + c)"

text \<open>
  The undisplaced position of the grid vertex in row \<open>r\<close> and column \<open>c\<close> of the
  \<open>(vertical_tiles + 1) \<times> (horizontal_tiles + 1)\<close> vertices: the last row and column of
  vertices lie on the lower and right edge of the image.
\<close>

definition grid_vertex :: "int \<Rightarrow> int \<Rightarrow> int \<Rightarrow> int \<Rightarrow> int \<Rightarrow> int \<Rightarrow> int \<times> int" where
  "grid_vertex w h horizontal_tiles vertical_tiles r c =
     (if c = horizontal_tiles then w else c * (w div horizontal_tiles),
      if r = vertical_tiles then h else r * (h div vertical_tiles))"

definition shift :: "int \<times> int \<Rightarrow> int \<times> int \<Rightarrow> int \<times> int" where
  "shift d v = (fst v + fst d, snd v + snd d)"

text \<open>The pair \<open>(dx, dy)\<close> that one pass of the loop draws from the stream \<open>g\<close>.\<close>

definition draw :: "int \<Rightarrow> rng \<Rightarrow> int \<times> int" where
  "draw m g = (- m + g 0 mod (m - - m + 1), - m + g 1 mod (m - - m + 1))"

text \<open>
  What the passes \<open>qs\<close> of the loop do to the corner of polygon \<open>j\<close> that the component
  \<open>sel\<close> of a pass addresses, starting from the value \<open>v\<close>.
\<close>

fun moved ::
  "(int \<times> int \<times> int \<times> int \<Rightarrow> int) \<Rightarrow> int \<Rightarrow> (int \<times> int \<times> int \<times> int) list \<Rightarrow> rng \<Rightarrow> nat
     \<Rightarrow> int \<times> int \<Rightarrow> int \<times> int" where
  "moved sel m [] g j v = v"
| "moved sel m (q # qs) g j v =
     moved sel m qs (rng_tail (rng_tail g)) j (if nat (sel q) = j then shift (draw m g) v else v)"

text \<open>The four components of a pass \<open>(a, b, c, d)\<close> of \<open>polygon_indices\<close>.\<close>

definition sel_a :: "int \<times> int \<times> int \<times> int \<Rightarrow> int" where
  "sel_a q = (case q of (a, b, c, d) \<Rightarrow> a)"

definition sel_b :: "int \<times> int \<times> int \<times> int \<Rightarrow> int" where
  "sel_b q = (case q of (a, b, c, d) \<Rightarrow> b)"

definition sel_c :: "int \<times> int \<times> int \<times> int \<Rightarrow> int" where
  "sel_c q = (case q of (a, b, c, d) \<Rightarrow> c)"

definition sel_d :: "int \<times> int \<times> int \<times> int \<Rightarrow> int" where
  "sel_d q = (case q of (a, b, c, d) \<Rightarrow> d)"

text \<open>Every index of every pass addresses one of the \<open>n\<close> polygons from the front.\<close>

definition passes_in_range :: "nat \<Rightarrow> (int \<times> int \<times> int \<times> int) list \<Rightarrow> bool" where
  "passes_in_range n qs =
     list_all (\<lambda>q. 0 \<le> sel_a q \<and> sel_a q < int n \<and> 0 \<le> sel_b q \<and> sel_b q < int n
                 \<and> 0 \<le> sel_c q \<and> sel_c q < int n \<and> 0 \<le> sel_d q \<and> sel_d q < int n) qs"

section \<open>Skew: the skew distance\<close>

lemma skew_amount_magnitude:
  "m \<noteq> 0 \<Longrightarrow>
   skew_amount \<lparr>skew_type = t, magnitude = Some m\<rparr> w h g = Inr (of_int (max w h) / of_int m, g)"
  by (simp add: skew_amount_def)

text \<open>
  Claim C5. For an image of width \<open>w\<close> and height \<open>h\<close> and a magnitude \<open>m > 0\<close>, the skew
  distance is \<open>max(w, h) / m\<close> exactly, and no randomness is consumed; and for a fixed
  image size a larger magnitude \<open>m'\<close> never gives a larger skew distance, and gives a
  strictly smaller one when the image is not empty.
\<close>

theorem skew_distance_inverse_magnitude:
  "0 < m \<Longrightarrow>
   skew_amount \<lparr>skew_type = t, magnitude = Some m\<rparr> w h g
     = Inr (of_int (max w h) / of_int m, g)
   \<and> (\<forall>m'. m < m' \<and> 0 \<le> w \<and> 0 \<le> h \<longrightarrow>
         (\<exists>d d'. skew_amount \<lparr>skew_type = t, magnitude = Some m\<rparr> w h g = Inr (d, g)
            \<and> skew_amount \<lparr>skew_type = t, magnitude = Some m'\<rparr> w h g = Inr (d', g)
            \<and> d' \<le> d \<and> (0 < max w h \<longrightarrow> d' < d)))"
proof (intro conjI allI impI)
  assume m: "0 < m"
  then show "skew_amount \<lparr>skew_type = t, magnitude = Some m\<rparr> w h g
      = Inr (of_int (max w h) / of_int m, g)"
    by (simp add: skew_amount_magnitude)
next
  fix m'
  assume m: "0 < m" and a: "m < m' \<and> 0 \<le> w \<and> 0 \<le> h"
  let ?M = "real_of_int (max w h)"
  have M: "0 \<le> ?M" using a by (simp add: max_def)
  have pos: "0 < real_of_int m" "real_of_int m < real_of_int m'"
    using m a by simp_all
  have le: "?M / real_of_int m' \<le> ?M / real_of_int m"
    using M pos by (simp add: frac_le)
  have less: "0 < max w h \<Longrightarrow> ?M / real_of_int m' < ?M / real_of_int m"
    using pos by (simp add: divide_strict_left_mono)
  have nz: "m' \<noteq> 0" "m \<noteq> 0" using m a by simp_all
  show "\<exists>d d'. skew_amount \<lparr>skew_type = t, magnitude = Some m\<rparr> w h g = Inr (d, g)
            \<and> skew_amount \<lparr>skew_type = t, magnitude = Some m'\<rparr> w h g = Inr (d', g)
            \<and> d' \<le> d \<and> (0 < max w h \<longrightarrow> d' < d)"
    using le less nz by (simp add: skew_amount_magnitude)
qed

theorem skew_distance_inverse_magnitude_witness:
  "skew_amount \<lparr>skew_type = ''TILT'', magnitude = Some 2\<rparr> 100 50 (\<lambda>n. 0) = Inr (50, \<lambda>n. 0)
   \<and> (\<exists>d d'. skew_amount \<lparr>skew_type = ''TILT'', magnitude = Some 2\<rparr> 100 50 (\<lambda>n. 0) = Inr (d, \<lambda>n. 0)
        \<and> skew_amount \<lparr>skew_type = ''TILT'', magnitude = Some 4\<rparr> 100 50 (\<lambda>n. 0) = Inr (d', \<lambda>n. 0)
        \<and> d' < d)"
proof -
  have pos: "(0::int) < 2" by simp
  note t = skew_distance_inverse_magnitude [OF pos, of "''TILT''" 100 50 "\<lambda>n. 0"]
  from t have first: "skew_amount \<lparr>skew_type = ''TILT'', magnitude = Some 2\<rparr> 100 50 (\<lambda>n. 0) = Inr (50, \<lambda>n. 0)"
    by simp
  from t have "(2::int) < 4 \<and> (0::int) \<le> 100 \<and> (0::int) \<le> 50 \<longrightarrow>
         (\<exists>d d'. skew_amount \<lparr>skew_type = ''TILT'', magnitude = Some 2\<rparr> 100 50 (\<lambda>n. 0) = Inr (d, \<lambda>n. 0)
            \<and> skew_amount \<lparr>skew_type = ''TILT'', magnitude = Some 4\<rparr> 100 50 (\<lambda>n. 0) = Inr (d', \<lambda>n. 0)
            \<and> d' \<le> d \<and> (0 < max (100::int) 50 \<longrightarrow> d' < d))"
    by blast
  then have "\<exists>d d'. skew_amount \<lparr>skew_type = ''TILT'', magnitude = Some 2\<rparr> 100 50 (\<lambda>n. 0) = Inr (d, \<lambda>n. 0)
            \<and> skew_amount \<lparr>skew_type = ''TILT'', magnitude = Some 4\<rparr> 100 50 (\<lambda>n. 0) = Inr (d', \<lambda>n. 0)
            \<and> d' < d"
    by fastforce
  with first show ?thesis by blast
qed

section \<open>Skew: a skew type outside the five known ones\<close>

text \<open>
  Claim C10. For every \<open>skew_type\<close> other than \<open>"TILT"\<close>, \<open>"TILT_LEFT_RIGHT"\<close>,
  \<open>"TILT_TOP_BOTTOM"\<close>, \<open>"CORNER"\<close> and \<open>"ALL"\<close>, \<open>Skew.perform_operation\<close> reaches the
  coefficient-solving step with \<open>new_plane\<close> never assigned and fails with
  \<open>UnboundLocalError\<close>. The skew distance must have been computed first: either the
  magnitude is set, or the image is not empty (\<open>random.randint(1, 0)\<close> would raise
  \<open>ValueError\<close> before).
\<close>

theorem skew_unknown_type_unbound:
  assumes "skew_type self \<notin> {''TILT'', ''TILT_LEFT_RIGHT'', ''TILT_TOP_BOTTOM'', ''CORNER'', ''ALL''}"
    and "(magnitude self \<noteq> None \<and> magnitude self \<noteq> Some 0) \<or> 1 \<le> max w h"
  shows "Skew_perform_operation linalg_inv self w h g = Inl UnboundLocalError"
proof -
  have "\<exists>s g1. skew_amount self w h g = Inr (s, g1)"
  proof (cases "magnitude self = None \<or> magnitude self = Some 0")
    case True
    with assms(2) have "\<not> max w h < 1" by auto
    with True show ?thesis
      by (simp add: skew_amount_def randint_def Let_def)
  next
    case False
    then show ?thesis
      by (auto simp add: skew_amount_def Let_def)
  qed
  then obtain s g1 where s: "skew_amount self w h g = Inr (s, g1)"
    by blast
  from assms(1) have "new_plane self w h g = Inr (None, g1)"
    by (simp add: new_plane_def s)
  then show ?thesis
    by (simp add: Skew_perform_operation_def)
qed

theorem skew_unknown_type_unbound_witness:
  "Skew_perform_operation (\<lambda>M. Inl LinAlgError) \<lparr>skew_type = ''SHEAR'', magnitude = Some 3\<rparr>
     100 50 (\<lambda>n. 0) = Inl UnboundLocalError"
  using skew_unknown_type_unbound
          [of "\<lparr>skew_type = ''SHEAR'', magnitude = Some 3\<rparr>" 100 50 "\<lambda>M. Inl LinAlgError" "\<lambda>n. 0"]
  by simp

section \<open>Shear: the angle\<close>

text \<open>
  Claim C7 says the shear angle is drawn from the bounds the operation was constructed
  with. The code draws it from the constants \<open>-20\<close> and \<open>20\<close>: constructed with the
  bounds \<open>(5, 5)\<close> and given the raw draw \<open>0.99\<close>, it shears by 21 degrees, the angle
  it uses for any other bounds as well.
\<close>

theorem shear_angle_ignores_configured_bounds:
  "angle_to_shear \<lparr>max_shear_left = 5, max_shear_right = 5\<rparr> (99 / 100) = 21
   \<and> angle_to_shear \<lparr>max_shear_left = 5, max_shear_right = 5\<rparr> (99 / 100)
       = angle_to_shear \<lparr>max_shear_left = 25, max_shear_right = 25\<rparr> (99 / 100)"
  by (simp add: angle_to_shear_def uniform_def py_int_def)

section \<open>Rotate: the crop window\<close>

lemma py_round_eqI:
  "real_of_int n - 1 / 2 < x \<Longrightarrow> x < real_of_int n + 1 / 2 \<Longrightarrow> py_round x = n"
proof -
  assume lo: "real_of_int n - 1 / 2 < x" and hi: "x < real_of_int n + 1 / 2"
  show ?thesis
  proof (cases "real_of_int n \<le> x")
    case True
    with hi have "\<lfloor>x\<rfloor> = n" by (simp add: floor_eq_iff)
    with hi show ?thesis by (simp add: py_round_def Let_def)
  next
    case False
    with lo have f: "\<lfloor>x\<rfloor> = n - 1" by (simp add: floor_eq_iff)
    with lo show ?thesis by (simp add: py_round_def Let_def)
  qed
qed

lemma py_round_of_int [simp]: "py_round (real_of_int n) = n"
  by (rule py_round_eqI) simp_all

lemma sin_radians_30: "sin (radians 30) = 1 / 2"
proof -
  have r: "radians 30 = pi / 6" by (simp add: radians_def)
  show ?thesis unfolding r by (rule sin_30)
qed

lemma sin_radians_60: "sin (radians 60) = sqrt 3 / 2"
proof -
  have r: "radians 60 = pi / 3" by (simp add: radians_def)
  show ?thesis unfolding r by (rule sin_60)
qed

lemma math_sin_nonzero: "sin x \<noteq> 0 \<Longrightarrow> math_sin residue x = sin x"
  by (simp add: math_sin_def)

lemma math_sin_radians_30: "math_sin residue (radians 30) = 1 / 2"
  by (simp add: math_sin_nonzero sin_radians_30)

lemma math_sin_radians_60: "math_sin residue (radians 60) = sqrt 3 / 2"
  by (simp add: math_sin_nonzero sin_radians_60)

lemma sqrt3_bounds: "17320 / 10000 < sqrt 3" "sqrt 3 < 17321 / 10000"
proof -
  show "17320 / 10000 < sqrt 3"
    by (rule real_less_rsqrt) (simp add: power2_eq_square)
  show "sqrt 3 < 17321 / 10000"
    by (rule real_less_lsqrt) (simp_all add: power2_eq_square)
qed

lemma inv_sqrt3: "1 / sqrt 3 = sqrt 3 / 3"
proof -
  have "sqrt 3 * sqrt 3 = 3" by simp
  then show ?thesis by (simp add: field_simps)
qed

lemma crop_window_30:
  "crop_window residue 30 224 187 = Inr (33, 110, 191, 77)"
proof -
  let ?s = "sqrt 3"
  have ss: "?s * ?s = 3" by simp
  have t: "(1 / 2) / (?s / 2) = ?s / 3" using inv_sqrt3 by simp
  have t2: "(1 / 2)\<^sup>2 / (?s / 2)\<^sup>2 = (1 / 3 :: real)"
    by (simp add: power2_eq_square)
  define E where "E = ?s / 3 * (187 - 224 * (?s / 3)) / 1 - 1 / 3"
  have E: "E = 187 * ?s / 3 - 75"
    unfolding E_def using ss by (simp add: field_simps)
  have A: "?s / 3 * (224 - E) = 299 * ?s / 3 - 187 / 3"
    unfolding E using ss by (simp add: field_simps)
  have r1: "py_round E = 33"
    by (rule py_round_eqI) (use sqrt3_bounds E in simp_all)
  have r2: "py_round (?s / 3 * (224 - E)) = 110"
    by (rule py_round_eqI) (use sqrt3_bounds A in simp_all)
  have r3: "py_round (224 - E) = 191"
    by (rule py_round_eqI) (use sqrt3_bounds E in simp_all)
  have r4: "py_round (187 - ?s / 3 * (224 - E)) = 77"
    by (rule py_round_eqI) (use sqrt3_bounds A in simp_all)
  have nz: "?s / 2 \<noteq> 0" by simp
  have "crop_window residue 30 224 187 =
      Inr (py_round E, py_round (?s / 3 * (224 - E)), py_round (224 - E),
           py_round (187 - ?s / 3 * (224 - E)))"
    unfolding crop_window_def Let_def E_def
    by (simp add: math_sin_radians_30 math_sin_radians_60 t t2 del: divide_divide_eq_left divide_divide_eq_right times_divide_eq_left times_divide_eq_right)
  then show ?thesis by (simp only: r1 r2 r3 r4)
qed


lemma spec_crop_window_30:
  "spec_crop_window 30 224 187 = (50, 100, 174, 87)"
proof -
  let ?s = "sqrt 3"
  have ss: "?s * ?s = 3" by simp
  have t: "(1 / 2) / (?s / 2) = ?s / 3" using inv_sqrt3 by simp
  have t2: "(1 / 2)\<^sup>2 / (?s / 2)\<^sup>2 = (1 / 3 :: real)"
    by (simp add: power2_eq_square)
  define E where "E = ?s / 3 * (187 - 224 * (?s / 3)) / (1 - 1 / 3)"
  have E: "E = 187 * ?s / 2 - 112"
    unfolding E_def using ss by (simp add: field_simps)
  have A: "?s / 3 * (224 - E) = 112 * ?s - 187 / 2"
    unfolding E using ss by (simp add: field_simps)
  have r1: "py_round E = 50"
    by (rule py_round_eqI) (use sqrt3_bounds E in simp_all)
  have r2: "py_round (?s / 3 * (224 - E)) = 100"
    by (rule py_round_eqI) (use sqrt3_bounds A in simp_all)
  have r3: "py_round (224 - E) = 174"
    by (rule py_round_eqI) (use sqrt3_bounds E in simp_all)
  have r4: "py_round (187 - ?s / 3 * (224 - E)) = 87"
    by (rule py_round_eqI) (use sqrt3_bounds A in simp_all)
  have "spec_crop_window 30 224 187 =
      (py_round E, py_round (?s / 3 * (224 - E)), py_round (224 - E),
           py_round (187 - ?s / 3 * (224 - E)))"
    unfolding spec_crop_window_def Let_def E_def
    by (simp add: sin_radians_30 sin_radians_60 t t2 del: divide_divide_eq_left divide_divide_eq_right times_divide_eq_left times_divide_eq_right)
  then show ?thesis by (simp only: r1 r2 r3 r4)
qed

text \<open>
  Claim C1 says that \<open>E\<close> is divided by the whole factor \<open>1 - sin\<^sup>2 a / sin\<^sup>2 b\<close>, as
  the docstring of \<open>Rotate.perform_operation\<close> writes the formula. Line 496 divides \<open>E\<close>
  by 1 and subtracts \<open>sin\<^sup>2 a / sin\<^sup>2 b\<close>. For a 200 x 100 image rotated by 30 degrees
  onto a 224 x 187 canvas the code crops \<open>(33, 110, 191, 77)\<close>, where the formula of the
  claim gives \<open>(50, 100, 174, 87)\<close>.
\<close>

theorem rotate_crop_precedence:
  "Rotate_perform_operation residue \<lparr>rotation = 30\<rparr> (200, 100) (\<lambda>a. (224, 187)) (\<lambda>n. 0)
     = Inr (CropResize (33, 110, 191, 77) (200, 100), \<lambda>n. 0)
   \<and> spec_crop_window 30 224 187 = (50, 100, 174, 87)"
  by (simp add: Rotate_perform_operation_def crop_window_30 spec_crop_window_30)

section \<open>Rotate: angles of 90 degrees and more\<close>

lemma sin_radians_135: "sin (radians 135) = sqrt 2 / 2"
proof -
  have r: "radians 135 = pi - pi / 4" by (simp add: radians_def)
  show ?thesis unfolding r by (simp only: sin_pi_minus sin_45)
qed

lemma sin_radians_minus_45: "sin (radians (- 45)) = - (sqrt 2 / 2)"
proof -
  have r: "radians (- 45) = - (pi / 4)" by (simp add: radians_def)
  show ?thesis unfolding r by (simp only: sin_minus sin_45)
qed

lemma crop_window_135: "crop_window residue 135 142 142 = Inr (- 285, - 427, 427, 569)"
proof -
  let ?s = "sqrt 2 / 2"
  have nz: "?s \<noteq> 0" by simp
  have a: "math_sin residue (radians 135) = ?s"
    using nz by (simp add: math_sin_nonzero sin_radians_135)
  have b: "math_sin residue (radians (- 45)) = - ?s"
    using nz by (simp add: math_sin_nonzero sin_radians_minus_45)
  have t: "?s / - ?s = - 1" using nz by (simp add: field_simps)
  have t2: "?s\<^sup>2 / (- ?s)\<^sup>2 = 1" using nz by simp
  have "crop_window residue 135 142 142 =
      Inr (py_round (real_of_int (- 285)), py_round (real_of_int (- 427)),
           py_round (real_of_int 427), py_round (real_of_int 569))"
    unfolding crop_window_def Let_def
    by (simp add: a b t t2 del: py_round_of_int)
  then show ?thesis by (simp only: py_round_of_int)
qed

text \<open>
  Claim C6 says that an angle with \<open>|\<theta>| \<ge> 90\<close> is answered with an error. Counterexample:
  rotating a 100 x 100 image by 135 degrees (canvas 142 x 142) signals nothing; the
  formula is evaluated with \<open>sin b < 0\<close> and the window \<open>(-285, -427, 427, 569)\<close> is
  handed to the crop, followed by the resize to 100 x 100.
\<close>

theorem rotate_135_returns_window:
  "Rotate_perform_operation (\<lambda>x. 1 / 10 ^ 16) \<lparr>rotation = 135\<rparr> (100, 100)
     (\<lambda>a. (142, 142)) (\<lambda>n. 0)
     = Inr (CropResize (- 285, - 427, 427, 569) (100, 100), \<lambda>n. 0)"
  by (simp add: Rotate_perform_operation_def crop_window_135)

lemma radians_eq_0_iff [simp]: "radians d = 0 \<longleftrightarrow> d = 0"
  by (simp add: radians_def)

lemma math_sin_eq_0_iff:
  assumes "\<forall>x. residue x \<noteq> 0"
  shows "math_sin residue x = 0 \<longleftrightarrow> x = 0"
  using assms by (auto simp: math_sin_def)

text \<open>
  Claim C6, amended. The code has no check of the angle and no error of its own for it.
  For every \<open>|\<theta>| \<ge> 90\<close>: at \<open>|\<theta>| = 90\<close> the division by \<open>sin b = 0\<close> raises
  \<open>ZeroDivisionError\<close>; at every other angle (the floating-point sine of \<open>b \<noteq> 0\<close> is
  not zero) nothing is raised, and the operation hands to the crop the window
  \<open>(round E, round A, round (X - E), round (Y - A))\<close> that lines 494--498 compute from
  \<open>sin a\<close> and \<open>sin b\<close>, followed by the resize to the original size.
\<close>

theorem rotate_angle_not_checked:
  assumes "90 \<le> \<bar>\<theta>\<bar>" and "\<forall>x. residue x \<noteq> 0"
  shows "(\<bar>\<theta>\<bar> = 90 \<longrightarrow>
           Rotate_perform_operation residue \<lparr>rotation = \<theta>\<rparr> sz expanded g
             = Inl ZeroDivisionError)
       \<and> (\<bar>\<theta>\<bar> \<noteq> 90 \<longrightarrow>
           Rotate_perform_operation residue \<lparr>rotation = \<theta>\<rparr> sz expanded g
             = (let X = real_of_int (fst (expanded \<theta>));
                    Y = real_of_int (snd (expanded \<theta>));
                    sin_a = math_sin residue (radians \<bar>\<theta>\<bar>);
                    sin_b = math_sin residue (radians (90 - \<bar>\<theta>\<bar>));
                    E = (sin_a / sin_b) * (Y - X * (sin_a / sin_b)) / 1 - sin_a\<^sup>2 / sin_b\<^sup>2;
                    A = (sin_a / sin_b) * (X - E)
                in Inr (CropResize (py_round E, py_round A, py_round (X - E), py_round (Y - A)) sz,
                        g)))"
proof (intro conjI impI)
  assume "\<bar>\<theta>\<bar> = 90"
  then show "Rotate_perform_operation residue \<lparr>rotation = \<theta>\<rparr> sz expanded g
               = Inl ZeroDivisionError"
    by (auto simp add: Rotate_perform_operation_def crop_window_def math_sin_def radians_def)
next
  assume a: "\<bar>\<theta>\<bar> \<noteq> 90"
  then have "90 - \<bar>\<theta>\<bar> \<noteq> 0" by simp
  then have nz: "math_sin residue (radians (90 - \<bar>\<theta>\<bar>)) \<noteq> 0"
    by (simp add: math_sin_eq_0_iff [OF assms(2)])
  from assms(1) have "\<theta> \<noteq> - 1" by auto
  with nz show "Rotate_perform_operation residue \<lparr>rotation = \<theta>\<rparr> sz expanded g
             = (let X = real_of_int (fst (expanded \<theta>));
                    Y = real_of_int (snd (expanded \<theta>));
                    sin_a = math_sin residue (radians \<bar>\<theta>\<bar>);
                    sin_b = math_sin residue (radians (90 - \<bar>\<theta>\<bar>));
                    E = (sin_a / sin_b) * (Y - X * (sin_a / sin_b)) / 1 - sin_a\<^sup>2 / sin_b\<^sup>2;
                    A = (sin_a / sin_b) * (X - E)
                in Inr (CropResize (py_round E, py_round A, py_round (X - E), py_round (Y - A)) sz,
                        g))"
    by (simp add: Rotate_perform_operation_def crop_window_def Let_def)
qed

lemma math_sin_radians_180: "math_sin residue (radians 180) = residue pi"
  by (simp add: math_sin_def radians_def)

lemma math_sin_radians_minus_90: "math_sin residue (radians (- 90)) = - 1"
proof -
  have r: "radians (- 90) = - (pi / 2)" by (simp add: radians_def)
  have "sin (radians (- 90)) = - 1" unfolding r by simp
  then show ?thesis by (simp add: math_sin_nonzero)
qed

theorem rotate_angle_not_checked_witness:
  "Rotate_perform_operation (\<lambda>x. 1 / 10 ^ 16) \<lparr>rotation = 90\<rparr> (200, 100)
     (\<lambda>a. (100, 200)) (\<lambda>n. 0) = Inl ZeroDivisionError
   \<and> Rotate_perform_operation (\<lambda>x. 1 / 10 ^ 16) \<lparr>rotation = 180\<rparr> (200, 100)
       (\<lambda>a. (200, 100)) (\<lambda>n. 0) = Inr (CropResize (0, 0, 200, 100) (200, 100), \<lambda>n. 0)"
proof -
  let ?r = "\<lambda>x::real. 1 / 10 ^ 16 :: real"
  have r: "\<forall>x. ?r x \<noteq> 0" by simp
  have a: "(90::real) \<le> \<bar>90\<bar>" and b: "(90::real) \<le> \<bar>180\<bar>" by simp_all
  from rotate_angle_not_checked [OF a r, of "(200, 100)" "\<lambda>a. (100, 200)" "\<lambda>n. 0"]
  have 1: "Rotate_perform_operation ?r \<lparr>rotation = 90\<rparr> (200, 100) (\<lambda>a. (100, 200)) (\<lambda>n. 0)
     = Inl ZeroDivisionError" by simp
  define E :: real where "E = - (1 / 10 ^ 16) * (100 + 200 * (1 / 10 ^ 16)) - (1 / 10 ^ 16)\<^sup>2"
  have r1: "py_round E = 0" by (rule py_round_eqI) (simp_all add: E_def power2_eq_square)
  have r2: "py_round (- (1 / 10 ^ 16) * (200 - E)) = 0"
    by (rule py_round_eqI) (simp_all add: E_def power2_eq_square)
  have r3: "py_round (200 - E) = 200" by (rule py_round_eqI) (simp_all add: E_def power2_eq_square)
  have r4: "py_round (100 - - (1 / 10 ^ 16) * (200 - E)) = 100"
    by (rule py_round_eqI) (simp_all add: E_def power2_eq_square)
  from rotate_angle_not_checked [OF b r, of "(200, 100)" "\<lambda>a. (200, 100)" "\<lambda>n. 0"]
  have "Rotate_perform_operation ?r \<lparr>rotation = 180\<rparr> (200, 100) (\<lambda>a. (200, 100)) (\<lambda>n. 0)
     = Inr (CropResize (py_round E, py_round (- (1 / 10 ^ 16) * (200 - E)), py_round (200 - E),
              py_round (100 - - (1 / 10 ^ 16) * (200 - E))) (200, 100), \<lambda>n. 0)"
    unfolding E_def
    by (simp add: Let_def math_sin_radians_180 math_sin_radians_minus_90
        del: py_round_of_int)
  then have 2: "Rotate_perform_operation ?r \<lparr>rotation = 180\<rparr> (200, 100) (\<lambda>a. (200, 100)) (\<lambda>n. 0)
     = Inr (CropResize (0, 0, 200, 100) (200, 100), \<lambda>n. 0)"
    by (simp only: r1 r2 r3 r4)
  from 1 2 show ?thesis by simp
qed

section \<open>Shear: the two axes\<close>

lemma tan_radians_10: "0 < tan (radians 10)" "tan (radians 10) < 1"
proof -
  have r: "radians 10 = pi / 18" by (simp add: radians_def)
  have "0 < pi / 18" "pi / 18 < pi / 2" "pi / 18 < pi / 4" "- (pi / 2) < pi / 18" "pi / 4 < pi / 2"
    using pi_gt_zero by simp_all
  then show "0 < tan (radians 10)" unfolding r by (intro tan_gt_zero)
  have "tan (pi / 18) < tan (pi / 4)"
    by (rule tan_monotone) (use pi_gt_zero in simp_all)
  then show "tan (radians 10) < 1" unfolding r by (simp only: tan_45)
qed

lemma angle_to_shear_10: "angle_to_shear s (61 / 84) = 10"
  by (simp add: angle_to_shear_def uniform_def py_int_def)

text \<open>
  Claim C8 says that the y-axis branch is the x-axis branch with the axes exchanged,
  the ceiling or floor of the pixel shift included. The y-axis branch (lines 791--810)
  never rounds its shift. For a 1 x 100 image sheared by 10 degrees along y, the crop
  window starts at \<open>tan (radians 10)\<close>, strictly between 0 and 1, where the x-axis branch on the
  transposed image (100 x 1), transposed back, starts at the ceiling 1.
\<close>

theorem shear_y_not_rounded:
  "crop_box (Shear_perform_operation \<lparr>max_shear_left = 20, max_shear_right = 20\<rparr> 1 100 (61 / 84) DirY)
     = (0, tan (radians 10), 1, 100)
   \<and> crop_box (transposed
        (Shear_perform_operation \<lparr>max_shear_left = 20, max_shear_right = 20\<rparr> 100 1 (61 / 84) DirX))
     = (0, 1, 1, 100)
   \<and> 0 < tan (radians 10) \<and> tan (radians 10) < 1"
proof -
  have c: "\<lceil>tan (radians 10)\<rceil> = 1"
    using tan_radians_10 by (simp add: ceiling_eq_iff)
  show ?thesis
    using tan_radians_10
    by (simp add: Shear_perform_operation_def angle_to_shear_10 shear_x_def shear_y_def
        transposed_def Let_def c)
qed

section \<open>Distort: the grid and the displacement loop\<close>

lemma floor_div_eq: "b \<noteq> 0 \<Longrightarrow> floor_div a b = Inr (a div b)"
  by (simp add: floor_div_def floor_divide_of_int_eq)

lemma length_py_range [simp]: "length (py_range n) = nat n"
  by (simp add: py_range_def)

lemma nth_py_range [simp]: "k < nat n \<Longrightarrow> py_range n ! k = int k"
  by (simp add: py_range_def)

lemma set_py_range: "set (py_range n) = {0..<n}"
proof -
  have "set (py_range n) = int ` {0..<nat n}" by (simp add: py_range_def)
  also have "\<dots> = {0..<n}"
  proof -
    have "x \<in> int ` {0..<nat n}" if "0 \<le> x" "x < n" for x
    proof -
      from that have "x = int (nat x)" "nat x \<in> {0..<nat n}" by auto
      then show ?thesis by (rule image_eqI)
    qed
    then show ?thesis by auto
  qed
  finally show ?thesis .
qed

lemma length_dimensions [simp]:
  "length (dimensions w h gw gh a b) = nat gh * nat gw"
  by (simp add: dimensions_def Let_def)

lemma nth_dimensions:
  assumes "0 \<le> r" "r < gh" "0 \<le> c" "c < gw"
  shows "dimensions w h gw gh a b ! cell_index gw r c
         = cell_box gw gh a b (w - a * (gw - 1)) (h - b * (gh - 1)) (r, c)"
proof -
  let ?n = "nat r * nat gw + nat c"
  have idx: "cell_index gw r c = ?n"
    using assms by (simp add: cell_index_def nat_add_distrib nat_mult_distrib)
  have c: "nat c < nat gw" and r: "nat r < nat gh" using assms by simp_all
  have "?n < nat r * nat gw + nat gw" using c by simp
  also have "\<dots> = (nat r + 1) * nat gw" by simp
  also have "\<dots> \<le> nat gh * nat gw"
  proof (rule mult_le_mono1)
    show "nat r + 1 \<le> nat gh" using assms by linarith
  qed
  finally have lt: "?n < nat gh * nat gw" .
  have d: "?n div nat gw = nat r" and m: "?n mod nat gw = nat c"
    using c by simp_all
  have "List.product (py_range gh) (py_range gw) ! ?n = (int (nat r), int (nat c))"
    using lt r c by (simp add: product_nth d m)
  then show ?thesis
    using lt assms by (simp add: dimensions_def Let_def idx)
qed

lemma py_index_in_range:
  "0 \<le> i \<Longrightarrow> i < int (length xs) \<Longrightarrow> py_index xs i = Inr (nat i)"
  by (simp add: py_index_def)

lemma update_polygon_in_range:
  "0 \<le> i \<Longrightarrow> i < int (length ps) \<Longrightarrow>
   update_polygon ps i f = Inr (ps[nat i := f (ps ! nat i)])"
  by (simp add: update_polygon_def py_index_in_range)

lemma randint_magnitude:
  "0 \<le> m \<Longrightarrow> randint (- m) m g = Inr (- m + g 0 mod (m - - m + 1), rng_tail g)"
  by (simp add: randint_def)

lemma draw_bounded:
  assumes "0 \<le> m"
  shows "\<bar>fst (draw m g)\<bar> \<le> m" and "\<bar>snd (draw m g)\<bar> \<le> m"
proof -
  have pos: "0 < m - - m + 1" using assms by simp
  note b0 = pos_mod_sign [OF pos, of "g 0"] pos_mod_bound [OF pos, of "g 0"]
  note b1 = pos_mod_sign [OF pos, of "g 1"] pos_mod_bound [OF pos, of "g 1"]
  show "\<bar>fst (draw m g)\<bar> \<le> m"
    unfolding draw_def fst_conv using b0 by linarith
  show "\<bar>snd (draw m g)\<bar> \<le> m"
    unfolding draw_def snd_conv using b1 by linarith
qed

lemma corners_move1 [simp]:
  "top_left (move1 dx dy p) = shift (dx, dy) (top_left p)"
  "bottom_left (move1 dx dy p) = bottom_left p"
  "bottom_right (move1 dx dy p) = bottom_right p"
  "top_right (move1 dx dy p) = top_right p"
  by (simp_all add: move1_def top_left_def bottom_left_def bottom_right_def
      top_right_def shift_def split: prod.splits)

lemma corners_move2 [simp]:
  "top_left (move2 dx dy p) = top_left p"
  "bottom_left (move2 dx dy p) = shift (dx, dy) (bottom_left p)"
  "bottom_right (move2 dx dy p) = bottom_right p"
  "top_right (move2 dx dy p) = top_right p"
  by (simp_all add: move2_def top_left_def bottom_left_def bottom_right_def
      top_right_def shift_def split: prod.splits)

lemma corners_move3 [simp]:
  "top_left (move3 dx dy p) = top_left p"
  "bottom_left (move3 dx dy p) = bottom_left p"
  "bottom_right (move3 dx dy p) = shift (dx, dy) (bottom_right p)"
  "top_right (move3 dx dy p) = top_right p"
  by (simp_all add: move3_def top_left_def bottom_left_def bottom_right_def
      top_right_def shift_def split: prod.splits)

lemma corners_move4 [simp]:
  "top_left (move4 dx dy p) = top_left p"
  "bottom_left (move4 dx dy p) = bottom_left p"
  "bottom_right (move4 dx dy p) = bottom_right p"
  "top_right (move4 dx dy p) = shift (dx, dy) (top_right p)"
  by (simp_all add: move4_def top_left_def bottom_left_def bottom_right_def
      top_right_def shift_def split: prod.splits)

lemma displace_step_in_range:
  assumes m: "0 \<le> m"
    and r: "0 \<le> a" "a < int (length ps)" "0 \<le> b" "b < int (length ps)"
           "0 \<le> c" "c < int (length ps)" "0 \<le> d" "d < int (length ps)"
  shows "\<exists>ps'. displace_step m (a, b, c, d) g ps = Inr (ps', rng_tail (rng_tail g))
           \<and> length ps' = length ps
           \<and> (\<forall>j<length ps.
                 top_left (ps' ! j)
                   = (if nat d = j then shift (draw m g) (top_left (ps ! j)) else top_left (ps ! j))
               \<and> bottom_left (ps' ! j)
                   = (if nat b = j then shift (draw m g) (bottom_left (ps ! j)) else bottom_left (ps ! j))
               \<and> bottom_right (ps' ! j)
                   = (if nat a = j then shift (draw m g) (bottom_right (ps ! j)) else bottom_right (ps ! j))
               \<and> top_right (ps' ! j)
                   = (if nat c = j then shift (draw m g) (top_right (ps ! j)) else top_right (ps ! j)))"
proof -
  define dx where "dx = - m + g 0 mod (m - - m + 1)"
  define dy where "dy = - m + g 1 mod (m - - m + 1)"
  define p1 where "p1 = ps[nat a := move3 dx dy (ps ! nat a)]"
  define p2 where "p2 = p1[nat b := move2 dx dy (p1 ! nat b)]"
  define p3 where "p3 = p2[nat c := move4 dx dy (p2 ! nat c)]"
  define p4 where "p4 = p3[nat d := move1 dx dy (p3 ! nat d)]"
  have len: "length p1 = length ps" "length p2 = length ps" "length p3 = length ps"
    "length p4 = length ps"
    by (simp_all add: p1_def p2_def p3_def p4_def)
  have dr: "draw m g = (dx, dy)" by (simp add: draw_def dx_def dy_def)
  have r1: "randint (- m) m g = Inr (dx, rng_tail g)"
    using m by (simp add: randint_magnitude dx_def)
  have r2: "randint (- m) m (rng_tail g) = Inr (dy, rng_tail (rng_tail g))"
    using m by (simp add: randint_magnitude dy_def rng_tail_def)
  have u1: "update_polygon ps a (move3 dx dy) = Inr p1"
    using r by (simp add: update_polygon_in_range p1_def)
  have u2: "update_polygon p1 b (move2 dx dy) = Inr p2"
    using r len by (simp add: update_polygon_in_range p2_def)
  have u3: "update_polygon p2 c (move4 dx dy) = Inr p3"
    using r len by (simp add: update_polygon_in_range p3_def)
  have u4: "update_polygon p3 d (move1 dx dy) = Inr p4"
    using r len by (simp add: update_polygon_in_range p4_def)
  have step: "displace_step m (a, b, c, d) g ps = Inr (p4, rng_tail (rng_tail g))"
    by (simp add: displace_step_def r1 r2 u1 u2 u3 u4)
  have corners: "top_left (p4 ! j)
                   = (if nat d = j then shift (dx, dy) (top_left (ps ! j)) else top_left (ps ! j))
               \<and> bottom_left (p4 ! j)
                   = (if nat b = j then shift (dx, dy) (bottom_left (ps ! j)) else bottom_left (ps ! j))
               \<and> bottom_right (p4 ! j)
                   = (if nat a = j then shift (dx, dy) (bottom_right (ps ! j)) else bottom_right (ps ! j))
               \<and> top_right (p4 ! j)
                   = (if nat c = j then shift (dx, dy) (top_right (ps ! j)) else top_right (ps ! j))"
    if "j < length ps" for j
    using that len by (simp add: p4_def p3_def p2_def p1_def nth_list_update)
  show ?thesis
    using step len corners by (simp add: dr)
qed


lemma passes_in_range_Cons:
  "passes_in_range n ((a, b, c, d) # qs) \<longleftrightarrow>
     (0 \<le> a \<and> a < int n \<and> 0 \<le> b \<and> b < int n \<and> 0 \<le> c \<and> c < int n \<and> 0 \<le> d \<and> d < int n)
     \<and> passes_in_range n qs"
  by (simp add: passes_in_range_def sel_a_def sel_b_def sel_c_def sel_d_def)

lemma displace_in_range:
  assumes "0 \<le> m" "passes_in_range (length ps) qs"
  shows "\<exists>ps' g'. displace m qs g ps = Inr (ps', g')
           \<and> length ps' = length ps
           \<and> (\<forall>j<length ps.
                 top_left (ps' ! j) = moved sel_d m qs g j (top_left (ps ! j))
               \<and> bottom_left (ps' ! j) = moved sel_b m qs g j (bottom_left (ps ! j))
               \<and> bottom_right (ps' ! j) = moved sel_a m qs g j (bottom_right (ps ! j))
               \<and> top_right (ps' ! j) = moved sel_c m qs g j (top_right (ps ! j)))"
  using assms
proof (induction qs arbitrary: g ps)
  case Nil
  then show ?case by simp
next
  case (Cons q qs)
  obtain a b c d where q: "q = (a, b, c, d)" by (cases q) auto
  from Cons.prems have r: "0 \<le> a" "a < int (length ps)" "0 \<le> b" "b < int (length ps)"
           "0 \<le> c" "c < int (length ps)" "0 \<le> d" "d < int (length ps)"
    and rest: "passes_in_range (length ps) qs"
    by (simp_all add: q passes_in_range_Cons)
  from displace_step_in_range [OF Cons.prems(1) r, of g]
  obtain p1 where step: "displace_step m (a, b, c, d) g ps = Inr (p1, rng_tail (rng_tail g))"
    and len1: "length p1 = length ps"
    and c1: "\<And>j. j < length ps \<Longrightarrow>
                 top_left (p1 ! j)
                   = (if nat d = j then shift (draw m g) (top_left (ps ! j)) else top_left (ps ! j))
               \<and> bottom_left (p1 ! j)
                   = (if nat b = j then shift (draw m g) (bottom_left (ps ! j)) else bottom_left (ps ! j))
               \<and> bottom_right (p1 ! j)
                   = (if nat a = j then shift (draw m g) (bottom_right (ps ! j)) else bottom_right (ps ! j))
               \<and> top_right (p1 ! j)
                   = (if nat c = j then shift (draw m g) (top_right (ps ! j)) else top_right (ps ! j))"
    by blast
  from rest len1 have rest1: "passes_in_range (length p1) qs" by simp
  from Cons.IH [OF Cons.prems(1) rest1, of "rng_tail (rng_tail g)"]
  obtain p2 g2 where run: "displace m qs (rng_tail (rng_tail g)) p1 = Inr (p2, g2)"
    and len2: "length p2 = length p1"
    and c2: "\<And>j. j < length p1 \<Longrightarrow>
                 top_left (p2 ! j) = moved sel_d m qs (rng_tail (rng_tail g)) j (top_left (p1 ! j))
               \<and> bottom_left (p2 ! j) = moved sel_b m qs (rng_tail (rng_tail g)) j (bottom_left (p1 ! j))
               \<and> bottom_right (p2 ! j) = moved sel_a m qs (rng_tail (rng_tail g)) j (bottom_right (p1 ! j))
               \<and> top_right (p2 ! j) = moved sel_c m qs (rng_tail (rng_tail g)) j (top_right (p1 ! j))"
    by blast
  have "displace m (q # qs) g ps = Inr (p2, g2)"
    by (simp add: q step run)
  moreover have "length p2 = length ps" using len1 len2 by simp
  moreover have "top_left (p2 ! j) = moved sel_d m (q # qs) g j (top_left (ps ! j))
               \<and> bottom_left (p2 ! j) = moved sel_b m (q # qs) g j (bottom_left (ps ! j))
               \<and> bottom_right (p2 ! j) = moved sel_a m (q # qs) g j (bottom_right (ps ! j))
               \<and> top_right (p2 ! j) = moved sel_c m (q # qs) g j (top_right (ps ! j))"
    if "j < length ps" for j
    using that c1 [of j] c2 [of j] len1
    by (simp add: q sel_a_def sel_b_def sel_c_def sel_d_def)
  ultimately show ?case by blast
qed

lemma moved_miss:
  "\<forall>q\<in>set qs. nat (sel q) \<noteq> j \<Longrightarrow> moved sel m qs g j v = v"
  by (induction qs arbitrary: g) simp_all

lemma moved_hit:
  assumes "distinct (map (\<lambda>q. nat (sel q)) qs)" "j \<in> set (map (\<lambda>q. nat (sel q)) qs)"
  shows "\<exists>k<length qs. moved sel m qs g j v = shift (draw m ((rng_tail ^^ (2 * k)) g)) v"
  using assms
proof (induction qs arbitrary: g v)
  case Nil
  then show ?case by simp
next
  case (Cons q qs)
  show ?case
  proof (cases "nat (sel q) = j")
    case True
    with Cons.prems(1) have "j \<notin> (\<lambda>q. nat (sel q)) ` set qs" by simp
    then have "\<forall>q'\<in>set qs. nat (sel q') \<noteq> j" by blast
    then have "moved sel m (q # qs) g j v = shift (draw m g) v"
      using True by (simp add: moved_miss)
    then have "moved sel m (q # qs) g j v = shift (draw m ((rng_tail ^^ (2 * 0)) g)) v"
      by simp
    then show ?thesis by (intro exI [of _ 0]) simp
  next
    case False
    with Cons.prems have d: "distinct (map (\<lambda>q. nat (sel q)) qs)"
      and j: "j \<in> set (map (\<lambda>q. nat (sel q)) qs)" by auto
    from Cons.IH [OF d j, of "rng_tail (rng_tail g)" v]
    obtain k where k: "k < length qs"
      and mv: "moved sel m qs (rng_tail (rng_tail g)) j v
               = shift (draw m ((rng_tail ^^ (2 * k)) (rng_tail (rng_tail g)))) v"
      by blast
    have "(rng_tail ^^ (2 * k)) (rng_tail (rng_tail g)) = (rng_tail ^^ (2 * Suc k)) g"
      by (simp add: funpow_swap1)
    with mv False have "moved sel m (q # qs) g j v = shift (draw m ((rng_tail ^^ (2 * Suc k)) g)) v"
      by simp
    with k show ?thesis by (intro exI [of _ "Suc k"]) simp
  qed
qed

lemma moved_cong:
  "\<forall>q\<in>set qs. (nat (sel q) = j) = (nat (sel' q) = j') \<Longrightarrow>
   moved sel m qs g j v = moved sel' m qs g j' v"
  by (induction qs arbitrary: g v) simp_all

lemma set_py_range2: "set (py_range2 a b) = {a..<b}"
proof -
  have "x \<in> (\<lambda>k. a + int k) ` {0..<nat (b - a)}" if "a \<le> x" "x < b" for x
  proof -
    from that have "x = a + int (nat (x - a))" "nat (x - a) \<in> {0..<nat (b - a)}" by auto
    then show ?thesis by (rule image_eqI)
  qed
  then show ?thesis by (auto simp: py_range2_def)
qed

lemma set_last_column:
  "set (last_column gw gh) = {i. \<exists>k. 0 \<le> k \<and> k < gh \<and> i = (gw - 1) + gw * k}"
  by (auto simp: last_column_def set_py_range)

lemma set_last_row:
  "set (last_row gw gh) = {gw * gh - gw..<gw * gh}"
  by (simp add: last_row_def set_py_range2)

lemma in_polygon_indices:
  "q \<in> set (polygon_indices gw gh) \<longleftrightarrow>
     (\<exists>i. q = (i, i + 1, i + gw, i + 1 + gw) \<and> 0 \<le> i \<and> i < gh * gw - 1
          \<and> \<not> (gw * gh - gw \<le> i \<and> i < gw * gh)
          \<and> (\<forall>k. 0 \<le> k \<and> k < gh \<longrightarrow> i \<noteq> (gw - 1) + gw * k))"
  by (auto simp: polygon_indices_def set_py_range set_last_row set_last_column)

lemma no_multiple_between:
  fixes g t :: int
  assumes "0 < g" "- g < g * t" "g * t < 0"
  shows False
proof (cases "t \<le> - 1")
  case True
  then have "g * t \<le> g * (- 1)" using assms(1) by (intro mult_left_mono) simp_all
  with assms(2) show False by simp
next
  case False
  then have "0 \<le> t" by simp
  then have "0 \<le> g * t" using assms(1) by simp
  with assms(3) show False by simp
qed

lemma polygon_index_bounds:
  assumes gw: "1 \<le> gw" and gh: "1 \<le> gh"
    and q: "(i, i + 1, i + gw, i + 1 + gw) \<in> set (polygon_indices gw gh)"
  shows "0 \<le> i" and "i + 1 + gw < gh * gw"
proof -
  from q have i0: "0 \<le> i" and nl: "\<not> (gw * gh - gw \<le> i \<and> i < gw * gh)"
    and up: "i < gh * gw - 1"
    and col: "\<And>k. 0 \<le> k \<Longrightarrow> k < gh \<Longrightarrow> i \<noteq> (gw - 1) + gw * k"
    by (auto simp: in_polygon_indices)
  show "0 \<le> i" by fact
  from nl up have lt: "i < gw * gh - gw" by (simp add: mult.commute)
  have ne: "i \<noteq> gw * gh - gw - 1"
  proof
    assume e: "i = gw * gh - gw - 1"
    have eq: "gw * gh - gw - 1 = (gw - 1) + gw * (gh - 2)" by (simp add: algebra_simps)
    show False
    proof (cases "2 \<le> gh")
      case True
      with col [of "gh - 2"] e eq show False by simp
    next
      case False
      with gh have "gh = 1" by simp
      with e i0 show False by simp
    qed
  qed
  from lt ne show "i + 1 + gw < gh * gw" by (simp add: mult.commute)
qed

lemma polygon_indices_in_range:
  assumes "1 \<le> gw" "1 \<le> gh"
  shows "passes_in_range (nat gh * nat gw) (polygon_indices gw gh)"
proof -
  have n: "int (nat gh * nat gw) = gh * gw" using assms by simp
  have "0 \<le> sel_a q \<and> sel_a q < gh * gw \<and> 0 \<le> sel_b q \<and> sel_b q < gh * gw
      \<and> 0 \<le> sel_c q \<and> sel_c q < gh * gw \<and> 0 \<le> sel_d q \<and> sel_d q < gh * gw"
    if "q \<in> set (polygon_indices gw gh)" for q
  proof -
    from that obtain i where q: "q = (i, i + 1, i + gw, i + 1 + gw)"
      by (auto simp: in_polygon_indices)
    from polygon_index_bounds [OF assms that [unfolded q]]
    have "0 \<le> i" "i + 1 + gw < gh * gw" .
    with assms(1) show ?thesis
      by (simp add: q sel_a_def sel_b_def sel_c_def sel_d_def)
  qed
  then show ?thesis
    unfolding passes_in_range_def n by (simp add: list_all_iff)
qed

lemma distinct_polygon_indices:
  "distinct (map (\<lambda>q. nat (sel_a q)) (polygon_indices gw gh))"
proof -
  let ?xs = "filter (\<lambda>i. i \<notin> set (last_row gw gh) \<and> i \<notin> set (last_column gw gh))
               (py_range (gh * gw - 1))"
  have m: "map (\<lambda>q. nat (sel_a q)) (polygon_indices gw gh) = map nat ?xs"
    by (simp add: polygon_indices_def sel_a_def comp_def)
  have "distinct (py_range (gh * gw - 1))"
    by (simp add: py_range_def distinct_map)
  then have d: "distinct ?xs" by simp
  have "inj_on nat (set ?xs)"
    by (rule inj_onI) (auto simp: set_py_range)
  with d show ?thesis unfolding m by (simp add: distinct_map)
qed

lemma corners_polygon_of [simp]:
  "top_left (polygon_of (x1, y1, x2, y2)) = (x1, y1)"
  "bottom_left (polygon_of (x1, y1, x2, y2)) = (x1, y2)"
  "bottom_right (polygon_of (x1, y1, x2, y2)) = (x2, y2)"
  "top_right (polygon_of (x1, y1, x2, y2)) = (x2, y1)"
  by (simp_all add: polygon_of_def top_left_def bottom_left_def bottom_right_def top_right_def)

lemma undisplaced_corners:
  fixes w h gw gh r c :: int
  assumes "0 \<le> r" "r < gh" "0 \<le> c" "c < gw"
  defines "p \<equiv> polygon_of (dimensions w h gw gh (w div gw) (h div gh) ! cell_index gw r c)"
  shows "top_left p = grid_vertex w h gw gh r c"
    and "bottom_left p = grid_vertex w h gw gh (r + 1) c"
    and "bottom_right p = grid_vertex w h gw gh (r + 1) (c + 1)"
    and "top_right p = grid_vertex w h gw gh r (c + 1)"
  using assms(1-4) unfolding p_def nth_dimensions [OF assms(1-4)]
  by (auto simp add: cell_box_def grid_vertex_def algebra_simps)

lemma Distort_mesh:
  fixes w h gw gh m0 :: int and g :: rng
  assumes "1 \<le> gw" "1 \<le> gh"
  defines "dims \<equiv> dimensions w h gw gh (w div gw) (h div gh)"
    and "qs \<equiv> polygon_indices gw gh"
  shows "\<exists>mesh g'. Distort_perform_operation (Distort_init gw gh m0) w h g = Inr (mesh, g')
           \<and> length mesh = nat gh * nat gw
           \<and> (\<forall>j<nat gh * nat gw.
                 fst (mesh ! j) = dims ! j
               \<and> top_left (snd (mesh ! j)) = moved sel_d (abs m0) qs g j (top_left (polygon_of (dims ! j)))
               \<and> bottom_left (snd (mesh ! j)) = moved sel_b (abs m0) qs g j (bottom_left (polygon_of (dims ! j)))
               \<and> bottom_right (snd (mesh ! j)) = moved sel_a (abs m0) qs g j (bottom_right (polygon_of (dims ! j)))
               \<and> top_right (snd (mesh ! j)) = moved sel_c (abs m0) qs g j (top_right (polygon_of (dims ! j))))"
proof -
  let ?n = "nat gh * nat gw"
  have len: "length dims = ?n" by (simp add: dims_def)
  have lenp: "length (map polygon_of dims) = ?n" by (simp add: len)
  have rng: "passes_in_range (length (map polygon_of dims)) qs"
    unfolding lenp qs_def by (rule polygon_indices_in_range [OF assms(1,2)])
  have m: "0 \<le> (abs m0)" by simp
  from displace_in_range [OF m rng, of g]
  obtain ps' g' where run: "displace (abs m0) qs g (map polygon_of dims) = Inr (ps', g')"
    and len': "length ps' = ?n"
    and cs: "\<And>j. j < ?n \<Longrightarrow>
                 top_left (ps' ! j) = moved sel_d (abs m0) qs g j (top_left (map polygon_of dims ! j))
               \<and> bottom_left (ps' ! j) = moved sel_b (abs m0) qs g j (bottom_left (map polygon_of dims ! j))
               \<and> bottom_right (ps' ! j) = moved sel_a (abs m0) qs g j (bottom_right (map polygon_of dims ! j))
               \<and> top_right (ps' ! j) = moved sel_c (abs m0) qs g j (top_right (map polygon_of dims ! j))"
    unfolding lenp by blast
  let ?mesh = "map (\<lambda>i. (dims ! i, ps' ! i)) [0..<length dims]"
  have fd: "floor_div w gw = Inr (w div gw)" "floor_div h gh = Inr (h div gh)"
    using assms(1,2) by (simp_all add: floor_div_eq)
  have "Distort_perform_operation (Distort_init gw gh m0) w h g = Inr (?mesh, g')"
    using run by (simp add: Distort_perform_operation_def Distort_init_def fd Let_def
        dims_def [symmetric] qs_def [symmetric])
  moreover have "length ?mesh = ?n" by (simp add: len)
  moreover have "fst (?mesh ! j) = dims ! j
               \<and> top_left (snd (?mesh ! j)) = moved sel_d (abs m0) qs g j (top_left (polygon_of (dims ! j)))
               \<and> bottom_left (snd (?mesh ! j)) = moved sel_b (abs m0) qs g j (bottom_left (polygon_of (dims ! j)))
               \<and> bottom_right (snd (?mesh ! j)) = moved sel_a (abs m0) qs g j (bottom_right (polygon_of (dims ! j)))
               \<and> top_right (snd (?mesh ! j)) = moved sel_c (abs m0) qs g j (top_right (polygon_of (dims ! j)))"
    if "j < ?n" for j
    using that cs [OF that] by (simp add: len)
  ultimately show ?thesis by blast
qed

lemma cell_index_less:
  assumes "0 \<le> r" "r < gh" "0 \<le> c" "c < gw"
  shows "cell_index gw r c < nat gh * nat gw"
proof -
  have "r * gw + c < r * gw + gw" using assms by simp
  also have "\<dots> = (r + 1) * gw" by (simp add: algebra_simps)
  also have "\<dots> \<le> gh * gw" using assms by (intro mult_right_mono) simp_all
  finally have "r * gw + c < gh * gw" .
  moreover have "0 \<le> r * gw + c" using assms by simp
  moreover have "int (nat gh * nat gw) = gh * gw" using assms by simp
  ultimately show ?thesis unfolding cell_index_def by linarith
qed

lemma polygon_indices_cases:
  assumes "q \<in> set (polygon_indices gw gh)"
  shows "\<exists>i. q = (i, i + 1, i + gw, i + 1 + gw) \<and> 0 \<le> i \<and> i < gw * gh - gw
           \<and> (\<forall>k. 0 \<le> k \<and> k < gh \<longrightarrow> i \<noteq> (gw - 1) + gw * k)"
proof -
  from assms obtain i where q: "q = (i, i + 1, i + gw, i + 1 + gw)" and i0: "0 \<le> i"
    and up: "i < gh * gw - 1" and nl: "\<not> (gw * gh - gw \<le> i \<and> i < gw * gh)"
    and col: "\<forall>k. 0 \<le> k \<and> k < gh \<longrightarrow> i \<noteq> (gw - 1) + gw * k"
    unfolding in_polygon_indices by blast
  from up nl have "i < gw * gh - gw" by (simp add: mult.commute)
  with q i0 col show ?thesis by blast
qed

lemma interior_pass:
  fixes gw gh r c :: int
  assumes "1 \<le> r" "r < gh" "1 \<le> c" "c < gw"
    and i_def: "i = (r - 1) * gw + (c - 1)"
  shows "(i, i + 1, i + gw, i + 1 + gw) \<in> set (polygon_indices gw gh)"
proof -
  have gw: "0 < gw" using assms by simp
  have i0: "0 \<le> i" using assms by (simp add: i_def)
  have "(r - 1) * gw \<le> (gh - 2) * gw" using assms by (intro mult_right_mono) simp_all
  with assms(3,4) have "i \<le> (gh - 2) * gw + (gw - 2)" unfolding i_def by linarith
  also have "\<dots> = gw * gh - gw - 2" by (simp add: algebra_simps)
  finally have le: "i \<le> gw * gh - gw - 2" .
  have notcol: "i \<noteq> (gw - 1) + gw * k" for k
  proof
    assume "i = (gw - 1) + gw * k"
    then have e: "gw * (k - r + 1) = c - gw" by (simp add: i_def algebra_simps)
    show False
      by (rule no_multiple_between [OF gw, of "k - r + 1"]) (use e assms in simp_all)
  qed
  have "i < gh * gw - 1" using le gw by (simp add: mult.commute)
  moreover have "\<not> (gw * gh - gw \<le> i \<and> i < gw * gh)" using le by simp
  ultimately show ?thesis
    unfolding in_polygon_indices using i0 notcol by blast
qed

lemma miss_top_left:
  fixes gw gh r c :: int
  assumes "0 \<le> r" "r < gh" "0 \<le> c" "c < gw" "r = 0 \<or> c = 0"
    and q: "q \<in> set (polygon_indices gw gh)"
  shows "nat (sel_d q) \<noteq> cell_index gw r c"
proof
  assume e: "nat (sel_d q) = cell_index gw r c"
  from polygon_indices_cases [OF q]
  obtain i where qi: "q = (i, i + 1, i + gw, i + 1 + gw)" and i0: "0 \<le> i"
    and col': "\<forall>k. 0 \<le> k \<and> k < gh \<longrightarrow> i \<noteq> (gw - 1) + gw * k"
    by blast
  from col' have col: "\<And>k. 0 \<le> k \<Longrightarrow> k < gh \<Longrightarrow> i \<noteq> (gw - 1) + gw * k"
    by blast
  have "0 \<le> r * gw + c" using assms by simp
  with e i0 assms have eq: "i + 1 + gw = r * gw + c"
    by (simp add: qi sel_d_def cell_index_def)
  from assms(5) show False
  proof
    assume "r = 0"
    with eq i0 assms show False by simp
  next
    assume c: "c = 0"
    show False
    proof (cases "2 \<le> r")
      case True
      from eq c have "i = (gw - 1) + gw * (r - 2)" by (simp add: algebra_simps)
      with col [of "r - 2"] True assms show False by simp
    next
      case False
      with assms have "r = 0 \<or> r = 1" by auto
      with eq c i0 assms show False by auto
    qed
  qed
qed

lemma miss_bottom_left:
  fixes gw gh r c :: int
  assumes "0 \<le> r" "r < gh" "0 \<le> c" "c < gw" "r + 1 = gh \<or> c = 0"
    and q: "q \<in> set (polygon_indices gw gh)"
  shows "nat (sel_b q) \<noteq> cell_index gw r c"
proof
  assume e: "nat (sel_b q) = cell_index gw r c"
  from polygon_indices_cases [OF q]
  obtain i where qi: "q = (i, i + 1, i + gw, i + 1 + gw)" and i0: "0 \<le> i"
    and row: "i < gw * gh - gw"
    and col': "\<forall>k. 0 \<le> k \<and> k < gh \<longrightarrow> i \<noteq> (gw - 1) + gw * k"
    by blast
  from col' have col: "\<And>k. 0 \<le> k \<Longrightarrow> k < gh \<Longrightarrow> i \<noteq> (gw - 1) + gw * k"
    by blast
  have "0 \<le> r * gw + c" using assms by simp
  with e i0 have eq: "i + 1 = r * gw + c"
    by (simp add: qi sel_b_def cell_index_def)
  show False
  proof (cases "c = 0")
    case True
    show False
    proof (cases "1 \<le> r")
      case True
      from eq \<open>c = 0\<close> have "i = (gw - 1) + gw * (r - 1)" by (simp add: algebra_simps)
      with col [of "r - 1"] True assms show False by simp
    next
      case False
      with assms have "r = 0" by simp
      with eq \<open>c = 0\<close> i0 show False by simp
    qed
  next
    case False
    with assms have r: "r + 1 = gh" and c: "1 \<le> c" by auto
    from r have "gh = r + 1" by simp
    then have "gw * gh - gw = r * gw" by (simp add: algebra_simps)
    with eq c row show False by simp
  qed
qed

lemma miss_bottom_right:
  fixes gw gh r c :: int
  assumes "0 \<le> r" "r < gh" "0 \<le> c" "c < gw" "r + 1 = gh \<or> c + 1 = gw"
    and q: "q \<in> set (polygon_indices gw gh)"
  shows "nat (sel_a q) \<noteq> cell_index gw r c"
proof
  assume e: "nat (sel_a q) = cell_index gw r c"
  from polygon_indices_cases [OF q]
  obtain i where qi: "q = (i, i + 1, i + gw, i + 1 + gw)" and i0: "0 \<le> i"
    and row: "i < gw * gh - gw"
    and col': "\<forall>k. 0 \<le> k \<and> k < gh \<longrightarrow> i \<noteq> (gw - 1) + gw * k"
    by blast
  from col' have col: "\<And>k. 0 \<le> k \<Longrightarrow> k < gh \<Longrightarrow> i \<noteq> (gw - 1) + gw * k"
    by blast
  have "0 \<le> r * gw + c" using assms by simp
  with e i0 have eq: "i = r * gw + c"
    by (simp add: qi sel_a_def cell_index_def)
  from assms(5) show False
  proof
    assume r: "r + 1 = gh"
    then have "gh = r + 1" by simp
    then have "gw * gh - gw = r * gw" by (simp add: algebra_simps)
    with eq row assms show False by simp
  next
    assume "c + 1 = gw"
    with eq have "i = (gw - 1) + gw * r" by (simp add: algebra_simps)
    with col [of r] assms show False by simp
  qed
qed

lemma miss_top_right:
  fixes gw gh r c :: int
  assumes "0 \<le> r" "r < gh" "0 \<le> c" "c < gw" "r = 0 \<or> c + 1 = gw"
    and q: "q \<in> set (polygon_indices gw gh)"
  shows "nat (sel_c q) \<noteq> cell_index gw r c"
proof
  assume e: "nat (sel_c q) = cell_index gw r c"
  from polygon_indices_cases [OF q]
  obtain i where qi: "q = (i, i + 1, i + gw, i + 1 + gw)" and i0: "0 \<le> i"
    and col': "\<forall>k. 0 \<le> k \<and> k < gh \<longrightarrow> i \<noteq> (gw - 1) + gw * k"
    by blast
  from col' have col: "\<And>k. 0 \<le> k \<Longrightarrow> k < gh \<Longrightarrow> i \<noteq> (gw - 1) + gw * k"
    by blast
  have "0 \<le> r * gw + c" using assms by simp
  with e i0 assms have eq: "i + gw = r * gw + c"
    by (simp add: qi sel_c_def cell_index_def)
  show False
  proof (cases "r = 0")
    case True
    with eq i0 assms show False by simp
  next
    case False
    with assms have r: "1 \<le> r" and c: "c + 1 = gw" by auto
    from eq c have "i = (gw - 1) + gw * (r - 1)" by (simp add: algebra_simps)
    with col [of "r - 1"] r assms show False by simp
  qed
qed

lemma rng_tail_const: "(rng_tail ^^ n) (\<lambda>k. x) = (\<lambda>k. x)"
  by (induction n) (simp_all add: rng_tail_def)

section \<open>Distort: border vertices\<close>

text \<open>
  Claim C4. For every image size, every grid of at least one cell per axis and every
  magnitude, the mesh is emitted, and in it every corner of every cell that is a vertex
  of the outer boundary of the grid (first or last row of vertices, first or last
  column) has its undisplaced coordinate \<open>grid_vertex\<close>.
\<close>

theorem distort_border_fixed:
  fixes w h gw gh m0 :: int and g :: rng
  assumes "1 \<le> gw" "1 \<le> gh"
  shows "\<exists>mesh g'. Distort_perform_operation (Distort_init gw gh m0) w h g = Inr (mesh, g')
           \<and> (\<forall>r c. 0 \<le> r \<and> r < gh \<and> 0 \<le> c \<and> c < gw \<longrightarrow>
                 (r = 0 \<or> c = 0 \<longrightarrow>
                    top_left (snd (mesh ! cell_index gw r c)) = grid_vertex w h gw gh r c)
               \<and> (r + 1 = gh \<or> c = 0 \<longrightarrow>
                    bottom_left (snd (mesh ! cell_index gw r c)) = grid_vertex w h gw gh (r + 1) c)
               \<and> (r + 1 = gh \<or> c + 1 = gw \<longrightarrow>
                    bottom_right (snd (mesh ! cell_index gw r c))
                      = grid_vertex w h gw gh (r + 1) (c + 1))
               \<and> (r = 0 \<or> c + 1 = gw \<longrightarrow>
                    top_right (snd (mesh ! cell_index gw r c)) = grid_vertex w h gw gh r (c + 1)))"
proof -
  let ?dims = "dimensions w h gw gh (w div gw) (h div gh)"
  let ?qs = "polygon_indices gw gh"
  from Distort_mesh [OF assms, of m0 w h g]
  obtain mesh g' where run: "Distort_perform_operation (Distort_init gw gh m0) w h g = Inr (mesh, g')"
    and cs: "\<And>j. j < nat gh * nat gw \<Longrightarrow>
                 top_left (snd (mesh ! j)) = moved sel_d (abs m0) ?qs g j (top_left (polygon_of (?dims ! j)))
               \<and> bottom_left (snd (mesh ! j)) = moved sel_b (abs m0) ?qs g j (bottom_left (polygon_of (?dims ! j)))
               \<and> bottom_right (snd (mesh ! j)) = moved sel_a (abs m0) ?qs g j (bottom_right (polygon_of (?dims ! j)))
               \<and> top_right (snd (mesh ! j)) = moved sel_c (abs m0) ?qs g j (top_right (polygon_of (?dims ! j)))"
    by blast
  have "(r = 0 \<or> c = 0 \<longrightarrow>
            top_left (snd (mesh ! cell_index gw r c)) = grid_vertex w h gw gh r c)
      \<and> (r + 1 = gh \<or> c = 0 \<longrightarrow>
            bottom_left (snd (mesh ! cell_index gw r c)) = grid_vertex w h gw gh (r + 1) c)
      \<and> (r + 1 = gh \<or> c + 1 = gw \<longrightarrow>
            bottom_right (snd (mesh ! cell_index gw r c)) = grid_vertex w h gw gh (r + 1) (c + 1))
      \<and> (r = 0 \<or> c + 1 = gw \<longrightarrow>
            top_right (snd (mesh ! cell_index gw r c)) = grid_vertex w h gw gh r (c + 1))"
    if rc: "0 \<le> r" "r < gh" "0 \<le> c" "c < gw" for r c
  proof -
    note j = cell_index_less [OF rc]
    note u = undisplaced_corners [OF rc, of w h]
    note c = cs [OF j]
    have 1: "top_left (snd (mesh ! cell_index gw r c)) = grid_vertex w h gw gh r c"
      if "r = 0 \<or> c = 0"
      using c u(1) miss_top_left [OF rc that] by (simp add: moved_miss)
    have 2: "bottom_left (snd (mesh ! cell_index gw r c)) = grid_vertex w h gw gh (r + 1) c"
      if "r + 1 = gh \<or> c = 0"
      using c u(2) miss_bottom_left [OF rc that] by (simp add: moved_miss)
    have 3: "bottom_right (snd (mesh ! cell_index gw r c)) = grid_vertex w h gw gh (r + 1) (c + 1)"
      if "r + 1 = gh \<or> c + 1 = gw"
      using c u(3) miss_bottom_right [OF rc that] by (simp add: moved_miss)
    have 4: "top_right (snd (mesh ! cell_index gw r c)) = grid_vertex w h gw gh r (c + 1)"
      if "r = 0 \<or> c + 1 = gw"
      using c u(4) miss_top_right [OF rc that] by (simp add: moved_miss)
    from 1 2 3 4 show ?thesis by blast
  qed
  with run show ?thesis by blast
qed

theorem distort_border_fixed_witness:
  "\<exists>mesh g'. Distort_perform_operation (Distort_init 2 2 100) 10 10 (\<lambda>n. 37) = Inr (mesh, g')
     \<and> top_left (snd (mesh ! 0)) = (0, 0)
     \<and> top_right (snd (mesh ! 1)) = (10, 0)
     \<and> bottom_left (snd (mesh ! 2)) = (0, 10)
     \<and> bottom_right (snd (mesh ! 3)) = (10, 10)"
proof -
  from distort_border_fixed [of 2 2 100 10 10 "\<lambda>n. 37"]
  obtain mesh g' where run: "Distort_perform_operation (Distort_init 2 2 100) 10 10 (\<lambda>n. 37) = Inr (mesh, g')"
    and fixed: "\<forall>r c. 0 \<le> r \<and> r < 2 \<and> 0 \<le> c \<and> c < 2 \<longrightarrow>
                 (r = 0 \<or> c = 0 \<longrightarrow>
                    top_left (snd (mesh ! cell_index 2 r c)) = grid_vertex 10 10 2 2 r c)
               \<and> (r + 1 = 2 \<or> c = 0 \<longrightarrow>
                    bottom_left (snd (mesh ! cell_index 2 r c)) = grid_vertex 10 10 2 2 (r + 1) c)
               \<and> (r + 1 = 2 \<or> c + 1 = 2 \<longrightarrow>
                    bottom_right (snd (mesh ! cell_index 2 r c))
                      = grid_vertex 10 10 2 2 (r + 1) (c + 1))
               \<and> (r = 0 \<or> c + 1 = 2 \<longrightarrow>
                    top_right (snd (mesh ! cell_index 2 r c)) = grid_vertex 10 10 2 2 r (c + 1))"
    by auto
  from fixed [rule_format, of 0 0] have 1: "top_left (snd (mesh ! 0)) = (0, 0)"
    by (simp add: cell_index_def grid_vertex_def)
  from fixed [rule_format, of 0 1] have 2: "top_right (snd (mesh ! 1)) = (10, 0)"
    by (simp add: cell_index_def grid_vertex_def)
  from fixed [rule_format, of 1 0] have 3: "bottom_left (snd (mesh ! 2)) = (0, 10)"
    by (simp add: cell_index_def grid_vertex_def)
  from fixed [rule_format, of 1 1] have 4: "bottom_right (snd (mesh ! 3)) = (10, 10)"
    by (simp add: cell_index_def grid_vertex_def)
  from run 1 2 3 4 show ?thesis by blast
qed

section \<open>Distort: interior vertices\<close>

text \<open>
  Claim C3. For every image size, grid and magnitude, and every interior vertex (row
  \<open>r\<close> and column \<open>c\<close> of the vertices, with \<open>1 \<le> r < grid_height\<close> and
  \<open>1 \<le> c < grid_width\<close>), the mesh is emitted and the four cells around the vertex
  carry the same coordinate for it: the undisplaced vertex shifted by the pair
  \<open>(dx, dy)\<close> drawn in one pass \<open>k\<close> of the loop, each component within the magnitude.
\<close>

theorem distort_shared_vertex:
  fixes w h gw gh m0 r c :: int and g :: rng
  assumes "1 \<le> r" "r < gh" "1 \<le> c" "c < gw"
  shows "\<exists>mesh g' k. Distort_perform_operation (Distort_init gw gh m0) w h g = Inr (mesh, g')
           \<and> k < length (polygon_indices gw gh)
           \<and> abs (fst (draw (abs m0) ((rng_tail ^^ (2 * k)) g))) \<le> abs m0
           \<and> abs (snd (draw (abs m0) ((rng_tail ^^ (2 * k)) g))) \<le> abs m0
           \<and> bottom_right (snd (mesh ! cell_index gw (r - 1) (c - 1)))
               = shift (draw (abs m0) ((rng_tail ^^ (2 * k)) g)) (grid_vertex w h gw gh r c)
           \<and> bottom_left (snd (mesh ! cell_index gw (r - 1) c))
               = shift (draw (abs m0) ((rng_tail ^^ (2 * k)) g)) (grid_vertex w h gw gh r c)
           \<and> top_right (snd (mesh ! cell_index gw r (c - 1)))
               = shift (draw (abs m0) ((rng_tail ^^ (2 * k)) g)) (grid_vertex w h gw gh r c)
           \<and> top_left (snd (mesh ! cell_index gw r c))
               = shift (draw (abs m0) ((rng_tail ^^ (2 * k)) g)) (grid_vertex w h gw gh r c)"
proof -
  let ?dims = "dimensions w h gw gh (w div gw) (h div gh)"
  let ?qs = "polygon_indices gw gh"
  let ?v = "grid_vertex w h gw gh r c"
  define i where "i = (r - 1) * gw + (c - 1)"
  have gw: "1 \<le> gw" and gh: "1 \<le> gh" using assms by simp_all
  from Distort_mesh [OF gw gh, of m0 w h g]
  obtain mesh g' where run: "Distort_perform_operation (Distort_init gw gh m0) w h g = Inr (mesh, g')"
    and cs: "\<And>j. j < nat gh * nat gw \<Longrightarrow>
                 top_left (snd (mesh ! j)) = moved sel_d (abs m0) ?qs g j (top_left (polygon_of (?dims ! j)))
               \<and> bottom_left (snd (mesh ! j)) = moved sel_b (abs m0) ?qs g j (bottom_left (polygon_of (?dims ! j)))
               \<and> bottom_right (snd (mesh ! j)) = moved sel_a (abs m0) ?qs g j (bottom_right (polygon_of (?dims ! j)))
               \<and> top_right (snd (mesh ! j)) = moved sel_c (abs m0) ?qs g j (top_right (polygon_of (?dims ! j)))"
    by blast
  \<comment> \<open>the four cells around the vertex\<close>
  have ra: "0 \<le> r - 1" "r - 1 < gh" "0 \<le> c - 1" "c - 1 < gw"
    and rb: "0 \<le> r - 1" "r - 1 < gh" "0 \<le> c" "c < gw"
    and rc: "0 \<le> r" "r < gh" "0 \<le> c - 1" "c - 1 < gw"
    and rd: "0 \<le> r" "r < gh" "0 \<le> c" "c < gw"
    using assms by simp_all
  have i0: "0 \<le> i" using assms by (simp add: i_def)
  have ia: "cell_index gw (r - 1) (c - 1) = nat i"
    and ib: "cell_index gw (r - 1) c = nat (i + 1)"
    and ic: "cell_index gw r (c - 1) = nat (i + gw)"
    and id: "cell_index gw r c = nat (i + 1 + gw)"
    by (simp_all add: cell_index_def i_def algebra_simps)
  \<comment> \<open>their corners at the vertex, before the loop\<close>
  have ua: "bottom_right (polygon_of (?dims ! nat i)) = ?v"
    using undisplaced_corners(3) [OF ra, of w h] by (simp add: ia)
  have ub: "bottom_left (polygon_of (?dims ! nat (i + 1))) = ?v"
    using undisplaced_corners(2) [OF rb, of w h] by (simp add: ib)
  have uc: "top_right (polygon_of (?dims ! nat (i + gw))) = ?v"
    using undisplaced_corners(4) [OF rc, of w h] by (simp add: ic)
  have ud: "top_left (polygon_of (?dims ! nat (i + 1 + gw))) = ?v"
    using undisplaced_corners(1) [OF rd, of w h] by (simp add: id)
  \<comment> \<open>the one pass that addresses the vertex\<close>
  have pass: "(i, i + 1, i + gw, i + 1 + gw) \<in> set ?qs"
    by (rule interior_pass [OF assms i_def])
  then have "nat i \<in> set (map (\<lambda>q. nat (sel_a q)) ?qs)"
    by (force simp: sel_a_def)
  from moved_hit [OF distinct_polygon_indices this, of "abs m0" g ?v]
  obtain k where k: "k < length ?qs"
    and hit: "moved sel_a (abs m0) ?qs g (nat i) ?v = shift (draw (abs m0) ((rng_tail ^^ (2 * k)) g)) ?v"
    by blast
  have same: "(nat (sel_b q) = nat (i + 1)) = (nat (sel_a q) = nat i)"
             "(nat (sel_c q) = nat (i + gw)) = (nat (sel_a q) = nat i)"
             "(nat (sel_d q) = nat (i + 1 + gw)) = (nat (sel_a q) = nat i)"
    if "q \<in> set ?qs" for q
  proof -
    from polygon_indices_cases [OF that]
    obtain i' where q: "q = (i', i' + 1, i' + gw, i' + 1 + gw)" and i': "0 \<le> i'" by blast
    show "(nat (sel_b q) = nat (i + 1)) = (nat (sel_a q) = nat i)"
         "(nat (sel_c q) = nat (i + gw)) = (nat (sel_a q) = nat i)"
         "(nat (sel_d q) = nat (i + 1 + gw)) = (nat (sel_a q) = nat i)"
      using i0 i' gw by (auto simp: q sel_a_def sel_b_def sel_c_def sel_d_def)
  qed
  have mb: "moved sel_b (abs m0) ?qs g (nat (i + 1)) ?v = moved sel_a (abs m0) ?qs g (nat i) ?v"
    by (rule moved_cong) (simp add: same)
  have mc: "moved sel_c (abs m0) ?qs g (nat (i + gw)) ?v = moved sel_a (abs m0) ?qs g (nat i) ?v"
    by (rule moved_cong) (simp add: same)
  have md: "moved sel_d (abs m0) ?qs g (nat (i + 1 + gw)) ?v = moved sel_a (abs m0) ?qs g (nat i) ?v"
    by (rule moved_cong) (simp add: same)
  have "bottom_right (snd (mesh ! cell_index gw (r - 1) (c - 1)))
               = shift (draw (abs m0) ((rng_tail ^^ (2 * k)) g)) ?v"
    using cs [OF cell_index_less [OF ra]] by (simp add: ia ua hit)
  moreover have "bottom_left (snd (mesh ! cell_index gw (r - 1) c))
               = shift (draw (abs m0) ((rng_tail ^^ (2 * k)) g)) ?v"
    using cs [OF cell_index_less [OF rb]] by (simp add: ib ub mb hit)
  moreover have "top_right (snd (mesh ! cell_index gw r (c - 1)))
               = shift (draw (abs m0) ((rng_tail ^^ (2 * k)) g)) ?v"
    using cs [OF cell_index_less [OF rc]] by (simp add: ic uc mc hit)
  moreover have "top_left (snd (mesh ! cell_index gw r c))
               = shift (draw (abs m0) ((rng_tail ^^ (2 * k)) g)) ?v"
    using cs [OF cell_index_less [OF rd]] by (simp add: id ud md hit)
  moreover have "abs (fst (draw (abs m0) ((rng_tail ^^ (2 * k)) g))) \<le> abs m0"
    "abs (snd (draw (abs m0) ((rng_tail ^^ (2 * k)) g))) \<le> abs m0"
    by (rule draw_bounded, simp)+
  ultimately show ?thesis using run k by blast
qed

theorem distort_shared_vertex_witness:
  "\<exists>mesh g'. Distort_perform_operation (Distort_init 2 2 3) 10 10 (\<lambda>n. 5) = Inr (mesh, g')
     \<and> bottom_right (snd (mesh ! 0)) = (7, 7)
     \<and> bottom_left (snd (mesh ! 1)) = (7, 7)
     \<and> top_right (snd (mesh ! 2)) = (7, 7)
     \<and> top_left (snd (mesh ! 3)) = (7, 7)"
proof -
  have d: "shift (draw \<bar>3\<bar> ((rng_tail ^^ (2 * k)) (\<lambda>n. 5))) (grid_vertex 10 10 2 2 1 1) = (7, 7)" for k
    by (simp add: rng_tail_const draw_def shift_def grid_vertex_def)
  from distort_shared_vertex [of 1 2 1 2 3 10 10 "\<lambda>n. 5"]
  obtain mesh g' k where run: "Distort_perform_operation (Distort_init 2 2 3) 10 10 (\<lambda>n. 5) = Inr (mesh, g')"
    and c: "bottom_right (snd (mesh ! cell_index 2 (1 - 1) (1 - 1)))
               = shift (draw (abs 3) ((rng_tail ^^ (2 * k)) (\<lambda>n. 5))) (grid_vertex 10 10 2 2 1 1)"
           "bottom_left (snd (mesh ! cell_index 2 (1 - 1) 1))
               = shift (draw (abs 3) ((rng_tail ^^ (2 * k)) (\<lambda>n. 5))) (grid_vertex 10 10 2 2 1 1)"
           "top_right (snd (mesh ! cell_index 2 1 (1 - 1)))
               = shift (draw (abs 3) ((rng_tail ^^ (2 * k)) (\<lambda>n. 5))) (grid_vertex 10 10 2 2 1 1)"
           "top_left (snd (mesh ! cell_index 2 1 1))
               = shift (draw (abs 3) ((rng_tail ^^ (2 * k)) (\<lambda>n. 5))) (grid_vertex 10 10 2 2 1 1)"
    by auto
  from c have "bottom_right (snd (mesh ! 0)) = (7, 7)" "bottom_left (snd (mesh ! 1)) = (7, 7)"
    "top_right (snd (mesh ! 2)) = (7, 7)" "top_left (snd (mesh ! 3)) = (7, 7)"
    unfolding d by (simp_all add: cell_index_def)
  with run show ?thesis by blast
qed

section \<open>Distort: the cells tile the image\<close>

lemma mult_div_le_int:
  fixes s x :: int
  shows "0 < s \<Longrightarrow> s * (x div s) \<le> x"
  using pos_mod_sign [of s x] mult_div_mod_eq [of s x] by linarith

lemma strip_exists:
  fixes gw w x :: int
  assumes gw: "1 \<le> gw" and x: "0 \<le> x" "x < w"
  shows "\<exists>c. 0 \<le> c \<and> c < gw \<and> c * (w div gw) \<le> x
             \<and> x < (if c = gw - 1 then w else (c + 1) * (w div gw))"
proof -
  let ?s = "w div gw"
  have s0: "0 \<le> ?s" using gw x by (simp add: pos_imp_zdiv_nonneg_iff)
  show ?thesis
  proof (cases "?s = 0 \<or> gw - 1 \<le> x div ?s")
    case True
    have "(gw - 1) * ?s \<le> x"
    proof (cases "?s = 0")
      case True
      with x show ?thesis by simp
    next
      case False
      with True s0 have le: "gw - 1 \<le> x div ?s" and pos: "0 < ?s" by simp_all
      from le have "(gw - 1) * ?s \<le> (x div ?s) * ?s" using s0 by (intro mult_right_mono)
      also have "\<dots> \<le> x" using mult_div_le_int [OF pos, of x] by (simp add: mult.commute)
      finally show ?thesis .
    qed
    with gw x show ?thesis by (intro exI [of _ "gw - 1"]) simp
  next
    case False
    with s0 have pos: "0 < ?s" and lt: "x div ?s < gw - 1" by simp_all
    let ?c = "x div ?s"
    have c0: "0 \<le> ?c" using x pos by (simp add: pos_imp_zdiv_nonneg_iff)
    have lo: "?c * ?s \<le> x" using mult_div_le_int [OF pos, of x] by (simp add: mult.commute)
    have "x < ?s * ?c + ?s"
      using pos_mod_bound [OF pos, of x] mult_div_mod_eq [of ?s x] by linarith
    then have hi: "x < (?c + 1) * ?s" by (simp add: algebra_simps)
    from c0 lt lo hi show ?thesis by (intro exI [of _ ?c]) simp
  qed
qed

lemma strip_unique:
  fixes gw w x c c' :: int
  assumes "0 \<le> w div gw"
    and c: "0 \<le> c" "c < gw" "c * (w div gw) \<le> x"
           "x < (if c = gw - 1 then w else (c + 1) * (w div gw))"
    and c': "0 \<le> c'" "c' < gw" "c' * (w div gw) \<le> x"
           "x < (if c' = gw - 1 then w else (c' + 1) * (w div gw))"
  shows "c = c'"
proof -
  have False if lt: "a < b" and b: "b < gw" and a: "x < (if a = gw - 1 then w else (a + 1) * (w div gw))"
    and bx: "b * (w div gw) \<le> x" for a b :: int
  proof -
    from lt b have "a \<noteq> gw - 1" by simp
    with a have "x < (a + 1) * (w div gw)" by simp
    also have "\<dots> \<le> b * (w div gw)" using lt assms(1) by (intro mult_right_mono) simp_all
    finally show False using bx by simp
  qed
  from this [of c c'] this [of c' c] c c' show ?thesis by (cases c c' rule: linorder_cases) auto
qed

lemma strip_within:
  fixes gw w x c :: int
  assumes gw: "1 \<le> gw" and w: "0 \<le> w"
    and c: "0 \<le> c" "c < gw" "c * (w div gw) \<le> x"
           "x < (if c = gw - 1 then w else (c + 1) * (w div gw))"
  shows "0 \<le> x \<and> x < w"
proof -
  let ?s = "w div gw"
  have s0: "0 \<le> ?s" using gw w by (simp add: pos_imp_zdiv_nonneg_iff)
  have "0 \<le> c * ?s" using c(1) s0 by simp
  with c(3) have x0: "0 \<le> x" by simp
  have "x < w"
  proof (cases "c = gw - 1")
    case True
    with c(4) show ?thesis by simp
  next
    case False
    with c have "x < (c + 1) * ?s" and "c + 1 \<le> gw" by simp_all
    then have "x < gw * ?s"
      using s0 mult_right_mono [of "c + 1" gw ?s] by linarith
    also have "\<dots> \<le> w" using gw by (intro mult_div_le_int) simp
    finally show ?thesis .
  qed
  with x0 show ?thesis by simp
qed

lemma cell_box_explicit:
  fixes w h gw gh r c :: int
  assumes "0 \<le> r" "r < gh" "0 \<le> c" "c < gw"
  shows "dimensions w h gw gh (w div gw) (h div gh) ! cell_index gw r c
         = (c * (w div gw), r * (h div gh),
            (if c = gw - 1 then w else (c + 1) * (w div gw)),
            (if r = gh - 1 then h else (r + 1) * (h div gh)))"
  unfolding nth_dimensions [OF assms]
  by (auto simp add: cell_box_def algebra_simps)

lemma cell_index_decompose:
  fixes gw gh :: int
  assumes "1 \<le> gw" "j < nat gh * nat gw"
  shows "\<exists>r c. 0 \<le> r \<and> r < gh \<and> 0 \<le> c \<and> c < gw \<and> j = cell_index gw r c"
proof -
  let ?r = "int (j div nat gw)" and ?c = "int (j mod nat gw)"
  have pos: "0 < nat gw" using assms by simp
  have "j div nat gw < nat gh"
    using assms(2) pos by (simp add: less_mult_imp_div_less)
  then have r: "0 \<le> ?r" "?r < gh" by simp_all
  have "j mod nat gw < nat gw" using pos by simp
  then have c: "0 \<le> ?c" "?c < gw" by linarith+
  have g: "gw = int (nat gw)" using assms(1) by simp
  have "?r * gw + ?c = int (j div nat gw) * int (nat gw) + int (j mod nat gw)"
    using g by simp
  also have "\<dots> = int (j div nat gw * nat gw + j mod nat gw)"
    by (simp only: of_nat_add of_nat_mult)
  also have "\<dots> = int j" by simp
  finally have "cell_index gw ?r ?c = j" by (simp add: cell_index_def)
  with r c show ?thesis by metis
qed

text \<open>
  Claim C9. For every image of size \<open>w \<times> h\<close> and every grid with \<open>gw \<ge> 1\<close> and
  \<open>gh \<ge> 1\<close>, the \<open>gw * gh\<close> bounding boxes of the mesh tile the image: every pixel of
  the image lies in exactly one box, no box holds a pixel outside the image, and the
  box in row \<open>r\<close> and column \<open>c\<close> starts at \<open>(c * (w div gw), r * (h div gh))\<close> and is
  one square wide and high, except that the last column ends at \<open>w\<close> and the last row
  at \<open>h\<close>, absorbing the remainders of the two divisions.
\<close>

theorem distort_cells_tile:
  fixes w h gw gh m0 :: int and g :: rng
  assumes gw: "1 \<le> gw" and gh: "1 \<le> gh" and w: "0 \<le> w" and h: "0 \<le> h"
  shows "\<exists>mesh g'. Distort_perform_operation (Distort_init gw gh m0) w h g = Inr (mesh, g')
           \<and> length mesh = nat (gh * gw)
           \<and> (\<forall>px py. 0 \<le> px \<and> px < w \<and> 0 \<le> py \<and> py < h \<longrightarrow>
                 (\<exists>!j. j < length mesh \<and> covers (fst (mesh ! j)) (px, py)))
           \<and> (\<forall>j px py. j < length mesh \<and> covers (fst (mesh ! j)) (px, py) \<longrightarrow>
                 0 \<le> px \<and> px < w \<and> 0 \<le> py \<and> py < h)
           \<and> (\<forall>r c. 0 \<le> r \<and> r < gh \<and> 0 \<le> c \<and> c < gw \<longrightarrow>
                 fst (mesh ! cell_index gw r c)
                   = (c * (w div gw), r * (h div gh),
                      (if c = gw - 1 then w else (c + 1) * (w div gw)),
                      (if r = gh - 1 then h else (r + 1) * (h div gh))))"
proof -
  let ?dims = "dimensions w h gw gh (w div gw) (h div gh)"
  let ?n = "nat gh * nat gw"
  from Distort_mesh [OF gw gh, of m0 w h g]
  obtain mesh g' where run: "Distort_perform_operation (Distort_init gw gh m0) w h g = Inr (mesh, g')"
    and len: "length mesh = ?n"
    and boxes: "\<And>j. j < ?n \<Longrightarrow> fst (mesh ! j) = ?dims ! j"
    by blast
  have n: "?n = nat (gh * gw)" using gw gh by (simp add: nat_mult_distrib)
  have s0: "0 \<le> w div gw" "0 \<le> h div gh"
    using gw gh w h by (simp_all add: pos_imp_zdiv_nonneg_iff)
  \<comment> \<open>the box of the cell in row \<open>r\<close> and column \<open>c\<close>\<close>
  have box: "fst (mesh ! cell_index gw r c)
               = (c * (w div gw), r * (h div gh),
                  (if c = gw - 1 then w else (c + 1) * (w div gw)),
                  (if r = gh - 1 then h else (r + 1) * (h div gh)))"
    if "0 \<le> r" "r < gh" "0 \<le> c" "c < gw" for r c
    using boxes [OF cell_index_less [OF that]] cell_box_explicit [OF that, of w h] by simp
  have cov: "covers (fst (mesh ! cell_index gw r c)) (px, py) \<longleftrightarrow>
               (c * (w div gw) \<le> px \<and> px < (if c = gw - 1 then w else (c + 1) * (w div gw)))
             \<and> (r * (h div gh) \<le> py \<and> py < (if r = gh - 1 then h else (r + 1) * (h div gh)))"
    if "0 \<le> r" "r < gh" "0 \<le> c" "c < gw" for r c px py
    unfolding box [OF that] by (simp add: covers_def)
  \<comment> \<open>every pixel of the image lies in exactly one box\<close>
  have tile: "\<exists>!j. j < length mesh \<and> covers (fst (mesh ! j)) (px, py)"
    if p: "0 \<le> px" "px < w" "0 \<le> py" "py < h" for px py
  proof -
    from strip_exists [OF gw p(1,2)]
    obtain c where c: "0 \<le> c" "c < gw" "c * (w div gw) \<le> px"
        "px < (if c = gw - 1 then w else (c + 1) * (w div gw))" by blast
    from strip_exists [OF gh p(3,4)]
    obtain r where r: "0 \<le> r" "r < gh" "r * (h div gh) \<le> py"
        "py < (if r = gh - 1 then h else (r + 1) * (h div gh))" by blast
    let ?j = "cell_index gw r c"
    have j: "?j < length mesh" unfolding len by (rule cell_index_less [OF r(1,2) c(1,2)])
    have cj: "covers (fst (mesh ! ?j)) (px, py)"
      unfolding cov [OF r(1,2) c(1,2)] using c r by simp
    have "j' = ?j" if j': "j' < length mesh" and cj': "covers (fst (mesh ! j')) (px, py)" for j'
    proof -
      from cell_index_decompose [OF gw j' [unfolded len]]
      obtain r' c' where rc': "0 \<le> r'" "r' < gh" "0 \<le> c'" "c' < gw"
        and e: "j' = cell_index gw r' c'" by blast
      from cj' have c': "c' * (w div gw) \<le> px"
          "px < (if c' = gw - 1 then w else (c' + 1) * (w div gw))"
        and r': "r' * (h div gh) \<le> py"
          "py < (if r' = gh - 1 then h else (r' + 1) * (h div gh))"
        unfolding e cov [OF rc'] by simp_all
      have "c' = c" by (rule strip_unique [OF s0(1) rc'(3,4) c' c])
      moreover have "r' = r" by (rule strip_unique [OF s0(2) rc'(1,2) r' r])
      ultimately show ?thesis by (simp add: e)
    qed
    with j cj show ?thesis by blast
  qed
  \<comment> \<open>no box reaches outside the image\<close>
  have inside: "0 \<le> px \<and> px < w \<and> 0 \<le> py \<and> py < h"
    if j: "j < length mesh" and cj: "covers (fst (mesh ! j)) (px, py)" for j px py
  proof -
    from cell_index_decompose [OF gw j [unfolded len]]
    obtain r c where rc: "0 \<le> r" "r < gh" "0 \<le> c" "c < gw"
      and e: "j = cell_index gw r c" by blast
    from cj have c: "c * (w div gw) \<le> px"
        "px < (if c = gw - 1 then w else (c + 1) * (w div gw))"
      and r: "r * (h div gh) \<le> py"
        "py < (if r = gh - 1 then h else (r + 1) * (h div gh))"
      unfolding e cov [OF rc] by simp_all
    from strip_within [OF gw w rc(3,4) c] strip_within [OF gh h rc(1,2) r]
    show ?thesis by simp
  qed
  have A: "\<forall>px py. 0 \<le> px \<and> px < w \<and> 0 \<le> py \<and> py < h \<longrightarrow>
                 (\<exists>!j. j < length mesh \<and> covers (fst (mesh ! j)) (px, py))"
    by (intro allI impI tile) simp_all
  have B: "\<forall>j px py. j < length mesh \<and> covers (fst (mesh ! j)) (px, py) \<longrightarrow>
                 0 \<le> px \<and> px < w \<and> 0 \<le> py \<and> py < h"
    using inside by blast
  have C: "\<forall>r c. 0 \<le> r \<and> r < gh \<and> 0 \<le> c \<and> c < gw \<longrightarrow>
                 fst (mesh ! cell_index gw r c)
                   = (c * (w div gw), r * (h div gh),
                      (if c = gw - 1 then w else (c + 1) * (w div gw)),
                      (if r = gh - 1 then h else (r + 1) * (h div gh)))"
    by (intro allI impI box) simp_all
  have L: "length mesh = nat (gh * gw)" using len n by simp
  from run L A B C show ?thesis by blast
qed

theorem distort_cells_tile_witness:
  "\<exists>mesh g'. Distort_perform_operation (Distort_init 3 2 2) 10 7 (\<lambda>n. 0) = Inr (mesh, g')
     \<and> length mesh = 6
     \<and> (\<exists>!j. j < length mesh \<and> covers (fst (mesh ! j)) (9, 6))
     \<and> fst (mesh ! 5) = (6, 3, 10, 7)"
proof -
  from distort_cells_tile [of 3 2 10 7 2 "\<lambda>n. 0"]
  obtain mesh g' where run: "Distort_perform_operation (Distort_init 3 2 2) 10 7 (\<lambda>n. 0) = Inr (mesh, g')"
    and len: "length mesh = nat (2 * 3)"
    and tile: "\<forall>px py. 0 \<le> px \<and> px < 10 \<and> 0 \<le> py \<and> py < 7 \<longrightarrow>
                 (\<exists>!j. j < length mesh \<and> covers (fst (mesh ! j)) (px, py))"
    and box: "\<forall>r c. 0 \<le> r \<and> r < 2 \<and> 0 \<le> c \<and> c < 3 \<longrightarrow>
                 fst (mesh ! cell_index 3 r c)
                   = (c * (10 div 3), r * (7 div 2),
                      (if c = 3 - 1 then 10 else (c + 1) * (10 div 3)),
                      (if r = 2 - 1 then 7 else (r + 1) * (7 div 2)))"
    by auto
  from len have 1: "length mesh = 6" by simp
  from tile have 2: "\<exists>!j. j < length mesh \<and> covers (fst (mesh ! j)) (9, 6)" by simp
  from box have "fst (mesh ! cell_index 3 1 2)
                   = (2 * (10 div 3), 1 * (7 div 2),
                      (if (2::int) = 3 - 1 then 10 else (2 + 1) * (10 div 3)),
                      (if (1::int) = 2 - 1 then 7 else (1 + 1) * (7 div 2)))"
    by simp
  then have 3: "fst (mesh ! 5) = (6, 3, 10, 7)" by (simp add: cell_index_def)
  from run 1 2 3 show ?thesis by blast
qed

section \<open>Skew: the projective solve on nearly degenerate corners\<close>

lemma upt_8: "[0..<8] = [0, 1, 2, 3, 4, 5, 6, 7]"
  by (simp add: upt_rec)

lemma new_plane_thin:
  "new_plane \<lparr>skew_type = ''CORNER'', magnitude = Some 1000\<rparr> 1 1000 (\<lambda>n. 0)
     = Inr (Some [(- 1, 0), (1, 0), (1, 1000), (0, 1000)], \<lambda>n. 0)"
  by (simp add: new_plane_def skew_amount_def randint_def rng_tail_def corner_plane_def)

lemma normal_matrix_thin:
  "normal_matrix [(- 1, 0), (1, 0), (1, 1000), (0, 1000)] (original_plane 1 1000) =
    [[3, 1000, 1, 0, 0, 0, - 2, - 1000],
     [1000, 2000000, 2000, 0, 0, 0, - 1000, - 1000000],
     [1, 2000, 4, 0, 0, 0, - 2, - 1000],
     [0, 0, 0, 3, 1000, 1, - 1000, - 1000000],
     [0, 0, 0, 1000, 2000000, 2000, - 1000000, - 2000000000],
     [0, 0, 0, 1, 2000, 4, - 1000, - 2000000],
     [- 2, - 1000, - 2, - 1000, - 1000000, - 1000, 1000002, 1000001000],
     [- 1000, - 1000000, - 1000, - 1000000, - 2000000000, - 2000000, 1000001000,
      2000001000000]]"
  by (simp add: normal_matrix_def skew_matrix_def matrix_rows_def original_plane_def
      mat_mul_def dot_def)

lemma exact_inv_thin:
  "exact_inv (normal_matrix [(- 1, 0), (1, 0), (1, 1000), (0, 1000)] (original_plane 1 1000)) =
    Inr [[800001 / 1600000, - (1 / 1600000000), 1 / 1600000, 1 / 4000,
       3999999 / 8000000, 0, 1 / 800000, 799999 / 1600000000],
      [- (1 / 1600000000), 2400001 / 1600000000000, - (800001 / 1600000000),
       - (1 / 4000000), 8000001 / 8000000000, 0, - (1 / 800000000),
       1600001 / 1600000000000],
      [1 / 1600000, - (800001 / 1600000000), 800001 / 1600000, 1 / 4000,
       - (1 / 8000000), 0, 1 / 800000, - (1 / 1600000000)],
      [1 / 4000, - (1 / 4000000), 1 / 4000, 1 / 2, - (1 / 4000), 0,
       1 / 2000, - (1 / 4000000)],
      [3999999 / 8000000, 8000001 / 8000000000, - (1 / 8000000),
       - (1 / 4000), 20000009 / 8000000, - (1 / 2000), - (1 / 4000000),
       20000001 / 8000000000],
      [0, 0, 0, 0, - (1 / 2000), 1 / 2, 0, 0],
      [1 / 800000, - (1 / 800000000), 1 / 800000, 1 / 2000, - (1 / 4000000),
       0, 1 / 400000, - (1 / 800000000)],
      [799999 / 1600000000, 1600001 / 1600000000000, - (1 / 1600000000),
       - (1 / 4000000), 20000001 / 8000000000, 0, - (1 / 800000000),
       4000001 / 1600000000000]]"
  unfolding normal_matrix_thin
  by (simp add: exact_inv_def identity_def eliminate_def upt_8)

lemma coefficients_thin:
  "perspective_skew_coefficients exact_inv [(- 1, 0), (1, 0), (1, 1000), (0, 1000)]
     (original_plane 1 1000)
   = Inr [1 / 2, - (1 / 2000), 1 / 2, 0, 1 / 2, 0, 0, - (1 / 2000)]"
  unfolding perspective_skew_coefficients_def Let_def exact_inv_thin
  by (simp add: skew_matrix_def matrix_rows_def original_plane_def mat_mul_def mat_vec_def dot_def)

text \<open>
  Claim C2 says that nearly degenerate correspondences are answered with an error
  instead of coefficients. Counterexample, built by the direction table itself: an image
  one pixel wide and 1000 high, skewed with \<open>skew_type = "CORNER"\<close> and magnitude 1000
  (skew distance 1, direction 0). In the destination plane the corner \<open>(0, 1000)\<close> lies
  one pixel off the line through the corners \<open>(1, 0)\<close> and \<open>(1, 1000)\<close>, which are 1000
  pixels apart. The normal-equations matrix has the entry \<open>2000001000000\<close> and its inverse
  an entry of about 2.5, so its reciprocal condition number is below \<open>1 / 10 ^ 12\<close>. Run
  with the inversion in exact arithmetic, the operation signals nothing and returns the
  coefficient vector, the one that solves the eight equations.
\<close>

theorem thin_image_corners_solved:
  "new_plane \<lparr>skew_type = ''CORNER'', magnitude = Some 1000\<rparr> 1 1000 (\<lambda>n. 0)
     = Inr (Some [(- 1, 0), (1, 0), (1, 1000), (0, 1000)], \<lambda>n. 0)
   \<and> twice_area (1, 0) (1, 1000) (0, 1000) = 1000
   \<and> distance2 (1, 0) (1, 1000) = 1000\<^sup>2
   \<and> normal_matrix [(- 1, 0), (1, 0), (1, 1000), (0, 1000)] (original_plane 1 1000) ! 7 ! 7
       = 2000001000000
   \<and> (\<exists>N. exact_inv (normal_matrix [(- 1, 0), (1, 0), (1, 1000), (0, 1000)]
                          (original_plane 1 1000)) = Inr N
          \<and> N ! 4 ! 4 = 20000009 / 8000000)
   \<and> Skew_perform_operation exact_inv \<lparr>skew_type = ''CORNER'', magnitude = Some 1000\<rparr>
        1 1000 (\<lambda>n. 0)
       = Inr ([1 / 2, - (1 / 2000), 1 / 2, 0, 1 / 2, 0, 0, - (1 / 2000)], \<lambda>n. 0)
   \<and> mat_vec (skew_matrix [(- 1, 0), (1, 0), (1, 1000), (0, 1000)] (original_plane 1 1000))
        [1 / 2, - (1 / 2000), 1 / 2, 0, 1 / 2, 0, 0, - (1 / 2000)]
       = [0, 0, 1, 0, 1, 1000, 0, 1000]"
proof -
  have 1: "twice_area (1, 0) (1, 1000) (0, 1000) = 1000"
    by (simp add: twice_area_def)
  have 2: "distance2 (1, 0) (1, 1000) = 1000\<^sup>2"
    by (simp add: distance2_def)
  have 3: "normal_matrix [(- 1, 0), (1, 0), (1, 1000), (0, 1000)] (original_plane 1 1000)
             ! 7 ! 7 = 2000001000000"
    unfolding normal_matrix_thin by simp
  have 4: "\<exists>N. exact_inv (normal_matrix [(- 1, 0), (1, 0), (1, 1000), (0, 1000)]
                          (original_plane 1 1000)) = Inr N
          \<and> N ! 4 ! 4 = 20000009 / 8000000"
    unfolding exact_inv_thin by simp
  have 5: "Skew_perform_operation exact_inv \<lparr>skew_type = ''CORNER'', magnitude = Some 1000\<rparr>
        1 1000 (\<lambda>n. 0)
       = Inr ([1 / 2, - (1 / 2000), 1 / 2, 0, 1 / 2, 0, 0, - (1 / 2000)], \<lambda>n. 0)"
    by (simp add: Skew_perform_operation_def new_plane_thin coefficients_thin)
  have 6: "mat_vec (skew_matrix [(- 1, 0), (1, 0), (1, 1000), (0, 1000)]
                     (original_plane 1 1000))
        [1 / 2, - (1 / 2000), 1 / 2, 0, 1 / 2, 0, 0, - (1 / 2000)]
       = [0, 0, 1, 0, 1, 1000, 0, 1000]"
    by (simp add: skew_matrix_def matrix_rows_def original_plane_def mat_vec_def dot_def)
  from new_plane_thin 1 2 3 4 5 6 show ?thesis by (simp only: simp_thms)
qed

text \<open>
  Claim C2, amended. For every set of correspondences, near-degenerate or not, and
  whatever the inversion routine does, the solve tests no conditioning and has no error
  of its own: whenever the inversion of the normal-equations matrix returns a matrix
  \<open>N\<close>, the solve returns the coefficient vector \<open>(N A\<^sup>T) B\<close> derived from that system;
  it surfaces an error exactly when the inversion itself raises one, the same error; and
  the whole operation, for a destination plane that its direction tables built, returns
  that coefficient vector as well.
\<close>

theorem skew_solve_no_conditioning_check:
  "(\<forall>N. linalg_inv (normal_matrix new original) = Inr N \<longrightarrow>
        perspective_skew_coefficients linalg_inv new original
          = Inr (mat_vec (mat_mul N (transpose (skew_matrix new original)))
                   (concat (map (\<lambda>p. [fst p, snd p]) original))))
   \<and> (\<forall>e. perspective_skew_coefficients linalg_inv new original = Inl e
        \<longleftrightarrow> linalg_inv (normal_matrix new original) = Inl e)
   \<and> (\<forall>self w h g g' N.
         new_plane self w h g = Inr (Some new, g') \<and> original = original_plane w h
         \<and> linalg_inv (normal_matrix new original) = Inr N \<longrightarrow>
         Skew_perform_operation linalg_inv self w h g
           = Inr (mat_vec (mat_mul N (transpose (skew_matrix new original)))
                    (concat (map (\<lambda>p. [fst p, snd p]) original)), g'))"
proof -
  have solve: "perspective_skew_coefficients linalg_inv new original
          = Inr (mat_vec (mat_mul N (transpose (skew_matrix new original)))
                   (concat (map (\<lambda>p. [fst p, snd p]) original)))"
    if "linalg_inv (normal_matrix new original) = Inr N" for N
    using that by (simp add: perspective_skew_coefficients_def Let_def)
  have errors: "perspective_skew_coefficients linalg_inv new original = Inl e
        \<longleftrightarrow> linalg_inv (normal_matrix new original) = Inl e" for e
    by (cases "linalg_inv (normal_matrix new original)")
       (simp_all add: perspective_skew_coefficients_def Let_def)
  have operation: "Skew_perform_operation linalg_inv self w h g
           = Inr (mat_vec (mat_mul N (transpose (skew_matrix new original)))
                    (concat (map (\<lambda>p. [fst p, snd p]) original)), g')"
    if "new_plane self w h g = Inr (Some new, g')" "original = original_plane w h"
      "linalg_inv (normal_matrix new original) = Inr N" for self w h g g' N
    using that solve [of N] by (simp add: Skew_perform_operation_def)
  from solve errors operation show ?thesis by blast
qed

lemma normal_matrix_coincident:
  "normal_matrix [(0, 0), (0, 0), (100, 100), (0, 100)] (original_plane 100 100) =
    [[10000, 10000, 100, 0, 0, 0, - 1000000, - 1000000],
     [10000, 20000, 200, 0, 0, 0, - 1000000, - 1000000],
     [100, 200, 4, 0, 0, 0, - 10000, - 10000],
     [0, 0, 0, 10000, 10000, 100, - 1000000, - 1000000],
     [0, 0, 0, 10000, 20000, 200, - 1000000, - 2000000],
     [0, 0, 0, 100, 200, 4, - 10000, - 20000],
     [- 1000000, - 1000000, - 10000, - 1000000, - 1000000, - 10000, 200000000, 200000000],
     [- 1000000, - 1000000, - 10000, - 1000000, - 2000000, - 20000, 200000000, 300000000]]"
  by (simp add: normal_matrix_def skew_matrix_def matrix_rows_def original_plane_def
      mat_mul_def dot_def)

lemma exact_inv_coincident:
  "exact_inv (normal_matrix [(0, 0), (0, 0), (100, 100), (0, 100)] (original_plane 100 100))
     = Inl LinAlgError"
  unfolding normal_matrix_coincident
  by (simp add: exact_inv_def identity_def eliminate_def upt_8)

lemma normal_matrix_tilt:
  "normal_matrix [(0, - 50), (100, 0), (100, 100), (0, 150)] (original_plane 100 100) =
    [[20000, 10000, 200, 0, 0, 0, - 2000000, - 1000000],
     [10000, 35000, 200, 0, 0, 0, - 1000000, - 1000000],
     [200, 200, 4, 0, 0, 0, - 20000, - 10000],
     [0, 0, 0, 20000, 10000, 200, - 1000000, - 1000000],
     [0, 0, 0, 10000, 35000, 200, - 1000000, - 3250000],
     [0, 0, 0, 200, 200, 4, - 10000, - 25000],
     [- 2000000, - 1000000, - 20000, - 1000000, - 1000000, - 10000, 300000000, 200000000],
     [- 1000000, - 1000000, - 10000, - 1000000, - 3250000, - 25000, 200000000, 425000000]]"
  by (simp add: normal_matrix_def skew_matrix_def matrix_rows_def original_plane_def
      mat_mul_def dot_def)

lemma exact_inv_tilt:
  "exact_inv (normal_matrix [(0, - 50), (100, 0), (100, 100), (0, 150)] (original_plane 100 100)) =
    Inr [[117 / 320000, 1 / 80000, - (9 / 1600), 13 / 128000, 31 / 320000,
       - (1 / 6400), 3 / 1280000, 1 / 1600000],
      [1 / 80000, 1 / 20000, - (1 / 400), - (3 / 160000), 3 / 80000,
       3 / 1600, - (1 / 8000000), 1 / 2000000],
      [- (9 / 1600), - (1 / 400), 5 / 8, 3 / 3200, - (3 / 1600), - (3 / 32),
       1 / 160000, - (1 / 40000)],
      [13 / 128000, - (3 / 160000), 3 / 3200, 253 / 1280000,
       - (29 / 640000), - (5 / 512), 19 / 12800000, - (3 / 3200000)],
      [31 / 320000, 3 / 80000, - (3 / 1600), - (29 / 640000), 61 / 320000,
       29 / 6400, 1 / 32000000, 3 / 1600000],
      [- (1 / 6400), 3 / 1600, - (3 / 32), - (5 / 512), 29 / 6400,
       125 / 128, - (31 / 640000), 3 / 32000],
      [3 / 1280000, - (1 / 8000000), 1 / 160000, 19 / 12800000,
       1 / 32000000, - (31 / 640000), 17 / 640000000, - (1 / 160000000)],
      [1 / 1600000, 1 / 2000000, - (1 / 40000), - (3 / 3200000),
       3 / 1600000, 3 / 32000, - (1 / 160000000), 1 / 40000000]]"
  unfolding normal_matrix_tilt
  by (simp add: exact_inv_def identity_def eliminate_def upt_8)

lemma new_plane_tilt:
  "new_plane \<lparr>skew_type = ''TILT'', magnitude = Some 2\<rparr> 100 100 (\<lambda>n. 0)
     = Inr (Some [(0, - 50), (100, 0), (100, 100), (0, 150)], \<lambda>n. 0)"
  by (simp add: new_plane_def skew_amount_def randint_def rng_tail_def tilt_plane_def)

theorem skew_solve_no_conditioning_check_witness:
  "perspective_skew_coefficients exact_inv [(0, - 50), (100, 0), (100, 100), (0, 150)]
     (original_plane 100 100)
     = Inr [1 / 2, 0, 0, - (1 / 4), 1 / 2, 25, - (1 / 200), 0]
   \<and> perspective_skew_coefficients exact_inv [(0, 0), (0, 0), (100, 100), (0, 100)]
       (original_plane 100 100)
     = Inl LinAlgError
   \<and> Skew_perform_operation exact_inv \<lparr>skew_type = ''TILT'', magnitude = Some 2\<rparr> 100 100
       (\<lambda>n. 0)
     = Inr ([1 / 2, 0, 0, - (1 / 4), 1 / 2, 25, - (1 / 200), 0], \<lambda>n. 0)"
proof -
  note t = skew_solve_no_conditioning_check
             [of exact_inv "[(0, - 50), (100, 0), (100, 100), (0, 150)]" "original_plane 100 100"]
  from t [THEN conjunct1, rule_format, OF exact_inv_tilt]
  have 1: "perspective_skew_coefficients exact_inv [(0, - 50), (100, 0), (100, 100), (0, 150)]
             (original_plane 100 100)
           = Inr [1 / 2, 0, 0, - (1 / 4), 1 / 2, 25, - (1 / 200), 0]"
    by (simp add: skew_matrix_def matrix_rows_def original_plane_def mat_mul_def mat_vec_def
        dot_def)
  note c = skew_solve_no_conditioning_check
             [of exact_inv "[(0, 0), (0, 0), (100, 100), (0, 100)]" "original_plane 100 100"]
  from c [THEN conjunct2, THEN conjunct1, rule_format, of LinAlgError] exact_inv_coincident
  have 2: "perspective_skew_coefficients exact_inv [(0, 0), (0, 0), (100, 100), (0, 100)]
             (original_plane 100 100) = Inl LinAlgError"
    by simp
  note o = t [THEN conjunct2, THEN conjunct2, rule_format,
               where self = "\<lparr>skew_type = ''TILT'', magnitude = Some 2\<rparr>" and w = 100
                 and h = 100 and g = "\<lambda>n. 0" and g' = "\<lambda>n. 0"]
  have "original_plane 100 100 = original_plane 100 100" ..
  with new_plane_tilt exact_inv_tilt
  have "new_plane \<lparr>skew_type = ''TILT'', magnitude = Some 2\<rparr> 100 100 (\<lambda>n. 0)
          = Inr (Some [(0, - 50), (100, 0), (100, 100), (0, 150)], \<lambda>n. 0)
        \<and> original_plane 100 100 = original_plane 100 100
        \<and> exact_inv (normal_matrix [(0, - 50), (100, 0), (100, 100), (0, 150)]
                     (original_plane 100 100)) = Inr
         [[117 / 320000, 1 / 80000, - (9 / 1600), 13 / 128000, 31 / 320000,
           - (1 / 6400), 3 / 1280000, 1 / 1600000],
          [1 / 80000, 1 / 20000, - (1 / 400), - (3 / 160000), 3 / 80000,
           3 / 1600, - (1 / 8000000), 1 / 2000000],
          [- (9 / 1600), - (1 / 400), 5 / 8, 3 / 3200, - (3 / 1600), - (3 / 32),
           1 / 160000, - (1 / 40000)],
          [13 / 128000, - (3 / 160000), 3 / 3200, 253 / 1280000,
           - (29 / 640000), - (5 / 512), 19 / 12800000, - (3 / 3200000)],
          [31 / 320000, 3 / 80000, - (3 / 1600), - (29 / 640000), 61 / 320000,
           29 / 6400, 1 / 32000000, 3 / 1600000],
          [- (1 / 6400), 3 / 1600, - (3 / 32), - (5 / 512), 29 / 6400,
           125 / 128, - (31 / 640000), 3 / 32000],
          [3 / 1280000, - (1 / 8000000), 1 / 160000, 19 / 12800000,
           1 / 32000000, - (31 / 640000), 17 / 640000000, - (1 / 160000000)],
          [1 / 1600000, 1 / 2000000, - (1 / 40000), - (3 / 3200000),
           3 / 1600000, 3 / 32000, - (1 / 160000000), 1 / 40000000]]"
    by (intro conjI)
  from o [OF this]
  have 3: "Skew_perform_operation exact_inv \<lparr>skew_type = ''TILT'', magnitude = Some 2\<rparr> 100 100
       (\<lambda>n. 0)
     = Inr ([1 / 2, 0, 0, - (1 / 4), 1 / 2, 25, - (1 / 200), 0], \<lambda>n. 0)"
    by (simp add: skew_matrix_def matrix_rows_def original_plane_def mat_mul_def mat_vec_def
        dot_def)
  from 1 2 3 show ?thesis by simp
qed

end
